theory Spec2Isabelle
  imports Main "HOL-Library.Word" "HOL-Library.Multiset"
begin

section \<open>FuseTransposeBrgemm: eligibility of a transpose order and fusion of layouts\<close>

text \<open>
  The development follows \<^verbatim>\<open>src/common/snippets/src/pass/fuse_transpose_brgemm.cpp\<close>.
  A failed \<^verbatim>\<open>OPENVINO_ASSERT\<close> throws; it is the value \<open>Inl (AssertFailure msg)\<close>.
  Reading an input port that a node does not have throws as well (\<open>OutOfRange\<close>), and
  dereferencing the null pointer that a failed \<^verbatim>\<open>as_type_ptr\<close> returns is \<open>NullPointer\<close>.
\<close>

datatype error = AssertFailure string | OutOfRange | NullPointer

subsection \<open>Permutations\<close>

text \<open>
  A layout is a \<^verbatim>\<open>std::vector<size_t>\<close>; its entries are natural numbers. It is a valid
  permutation when it lists every index below its length exactly once.
\<close>

definition valid_permutation :: "nat list \<Rightarrow> bool" where
  "valid_permutation l = (mset l = mset [0..<length l])"

text \<open>
  The order vector handed to the eligibility check is a \<^verbatim>\<open>std::vector<int32_t>\<close>; its
  entries are 32-bit words read as two's complement by \<open>sint\<close>.
\<close>

definition valid_permutation_i32 :: "32 word list \<Rightarrow> bool" where
  "valid_permutation_i32 p = (mset (map sint p) = mset (map int [0..<length p]))"

subsection \<open>is_supported_transpose_order (lines 42-45)\<close>

text \<open>
  \<^verbatim>\<open>static_cast<int32_t>(size)\<close> keeps the low 32 bits of the size, and the subtraction
  is the one of 32-bit words. The conjunction of the source evaluates \<^verbatim>\<open>order.back()\<close>
  only for a non-empty vector.
\<close>

definition is_supported_transpose_order :: "32 word list \<Rightarrow> bool" where
  "is_supported_transpose_order order =
     (let size = length order
      in if order = [] then False
         else last order = (word_of_nat size :: 32 word) - 1)"

subsection \<open>fuse_layouts (lines 72-86)\<close>

text \<open>
  The loop of lines 81-84, with \<open>fused_layout\<close> as the accumulator: position \<open>i\<close> is
  checked by the assertion of line 82 and then written. The loop is entered with
  vectors of equal size only (line 79), so \<open>layout_2 ! i\<close> is a read in range.
\<close>

function fuse_layouts_loop :: "nat list \<Rightarrow> nat list \<Rightarrow> nat \<Rightarrow> nat list \<Rightarrow> error + nat list" where
  "fuse_layouts_loop layout_1 layout_2 i fused_layout =
     (if i < length layout_1 then
        (if layout_2 ! i < length layout_1
         then fuse_layouts_loop layout_1 layout_2 (Suc i)
                (fused_layout[i := layout_1 ! (layout_2 ! i)])
         else Inl (AssertFailure ''Fused layouts values mustn't exceed layout size''))
      else Inr fused_layout)"
  by pat_completeness auto
termination
  by (relation "measure (\<lambda>(layout_1, layout_2, i, fused_layout). length layout_1 - i)") auto

definition fuse_layouts :: "nat list \<Rightarrow> nat list \<Rightarrow> error + nat list" where
  "fuse_layouts layout_1 layout_2 =
     (if layout_1 = [] then Inr layout_2
      else if layout_2 = [] then Inr layout_1
      else if length layout_1 \<noteq> length layout_2
        then Inl (AssertFailure ''Fused layouts must have equal ranks'')
      else fuse_layouts_loop layout_1 layout_2 0 (replicate (length layout_1) 0))"


section \<open>The IR graph and the port descriptors\<close>

text \<open>
  A node is known by its position in the list of nodes of the graph. An
  \<^verbatim>\<open>Output<Node>\<close> is a node together with the index of one of its outputs, an
  \<^verbatim>\<open>Input<Node>\<close> a node together with the index of one of its inputs. A Constant
  carries its elements as integers. A position beyond the list stands for the null
  pointer: no node is there.
\<close>

type_synonym node_id = nat
type_synonym node_output = "node_id \<times> nat"
type_synonym node_input = "node_id \<times> nat"

datatype op_type = Parameter | Constant "int list" | Transpose | Brgemm | Result | Other

record node =
  node_op :: op_type
  inputs :: "node_output list"
  out_shapes :: "nat list list"

datatype port = InPort node_id nat | OutPort node_id nat

record port_descriptor =
  shape :: "nat list"
  layout :: "nat list"

record graph =
  nodes :: "node list"
  descs :: "port \<Rightarrow> port_descriptor"

definition bind_result :: "error + 'a \<Rightarrow> ('a \<Rightarrow> error + 'b) \<Rightarrow> error + 'b" where
  "bind_result r f = (case r of Inl e \<Rightarrow> Inl e | Inr x \<Rightarrow> f x)"

definition node_at :: "graph \<Rightarrow> node_id \<Rightarrow> node option" where
  "node_at g n = (if n < length (nodes g) then Some (nodes g ! n) else None)"

text \<open>
  Modelled from the spec: \<^verbatim>\<open>ov::as_type_ptr\<close> (\<^verbatim>\<open>openvino/core/type.hpp\<close>) is not under
  src/. It is the "runtime type discrimination across IR node kinds (Transpose vs. Brgemm
  vs. Constant)": the node when it has the kind asked for, the null pointer otherwise.
\<close>

definition as_transpose :: "graph \<Rightarrow> node_id \<Rightarrow> node_id option" where
  "as_transpose g n =
     (case node_at g n of
        None \<Rightarrow> None
      | Some nd \<Rightarrow> (if node_op nd = Transpose then Some n else None))"

definition as_brgemm :: "graph \<Rightarrow> node_id \<Rightarrow> node_id option" where
  "as_brgemm g n =
     (case node_at g n of
        None \<Rightarrow> None
      | Some nd \<Rightarrow> (if node_op nd = Brgemm then Some n else None))"

definition as_constant :: "graph \<Rightarrow> node_id \<Rightarrow> int list option" where
  "as_constant g n =
     (case node_at g n of
        None \<Rightarrow> None
      | Some nd \<Rightarrow> (case node_op nd of Constant d \<Rightarrow> Some d | _ \<Rightarrow> None))"

text \<open>
  Modelled from the spec: the node interface (\<^verbatim>\<open>openvino/core/node.hpp\<close>) is not under
  src/. A node "has a fixed-size ordered list of input ports and output ports"; reading
  the source of an input port the node does not have throws. \<open>input_value\<close> is also
  \<^verbatim>\<open>input(i).get_source_output()\<close>.
\<close>

definition get_input_size :: "graph \<Rightarrow> node_id \<Rightarrow> nat" where
  "get_input_size g n = (case node_at g n of None \<Rightarrow> 0 | Some nd \<Rightarrow> length (inputs nd))"

definition input_value :: "graph \<Rightarrow> node_id \<Rightarrow> nat \<Rightarrow> error + node_output" where
  "input_value g n i =
     (case node_at g n of
        None \<Rightarrow> Inl NullPointer
      | Some nd \<Rightarrow> (if i < length (inputs nd) then Inr (inputs nd ! i) else Inl OutOfRange))"

definition get_input_node_shared_ptr :: "graph \<Rightarrow> node_id \<Rightarrow> nat \<Rightarrow> error + node_id" where
  "get_input_node_shared_ptr g n i = bind_result (input_value g n i) (\<lambda>v. Inr (fst v))"

definition get_partial_shape :: "graph \<Rightarrow> node_output \<Rightarrow> error + nat list" where
  "get_partial_shape g v =
     (case node_at g (fst v) of
        None \<Rightarrow> Inl NullPointer
      | Some nd \<Rightarrow> (if snd v < length (out_shapes nd) then Inr (out_shapes nd ! snd v)
                    else Inl OutOfRange))"

definition get_input_partial_shape :: "graph \<Rightarrow> node_id \<Rightarrow> nat \<Rightarrow> error + nat list" where
  "get_input_partial_shape g n i = bind_result (input_value g n i) (get_partial_shape g)"

text \<open>
  Modelled from the spec: \<^verbatim>\<open>utils::pshape_to_vdims\<close> is not under src/. The spec sets
  the descriptor's shape "to the transpose's input shape" and "to the transpose's output
  shape": the dimensions are taken as they are.
\<close>

definition pshape_to_vdims :: "nat list \<Rightarrow> nat list" where
  "pshape_to_vdims pshape = pshape"

text \<open>
  Modelled from the spec: \<^verbatim>\<open>Constant::cast_vector\<close> is not under src/. The spec reads
  the permutation constant as "an ordered sequence of integers"; each element is
  converted as a C++ \<^verbatim>\<open>static_cast\<close> to the element type asked for does, to 32 bits and
  to the 64 bits of \<^verbatim>\<open>size_t\<close>.
\<close>

definition cast_vector_i32 :: "int list \<Rightarrow> 32 word list" where
  "cast_vector_i32 d = map word_of_int d"

definition cast_vector_size_t :: "int list \<Rightarrow> nat list" where
  "cast_vector_size_t d = map (\<lambda>x. nat (x mod 2 ^ 64)) d"

text \<open>
  Modelled from the spec: the graph mutation primitives are not under src/.
  \<open>replace_input(node, index, new_value)\<close> is \<^verbatim>\<open>set_argument\<close> on a node and
  \<^verbatim>\<open>replace_source_output\<close> on an input port; the callback calls both on input ports
  that exist. \<^verbatim>\<open>get_target_inputs\<close> lists the input ports that consume an output.
\<close>

definition set_argument :: "graph \<Rightarrow> node_id \<Rightarrow> nat \<Rightarrow> node_output \<Rightarrow> graph" where
  "set_argument g n i v =
     g\<lparr>nodes := (nodes g)[n := (nodes g ! n)\<lparr>inputs := (inputs (nodes g ! n))[i := v]\<rparr>]\<rparr>"

definition replace_source_output :: "graph \<Rightarrow> node_input \<Rightarrow> node_output \<Rightarrow> graph" where
  "replace_source_output g inp v = set_argument g (fst inp) (snd inp) v"

definition get_target_inputs :: "graph \<Rightarrow> node_output \<Rightarrow> node_input list" where
  "get_target_inputs g v =
     concat (map (\<lambda>n. map (\<lambda>k. (n, k))
                          (filter (\<lambda>k. inputs (nodes g ! n) ! k = v)
                                  [0..<length (inputs (nodes g ! n))]))
                 [0..<length (nodes g)])"

text \<open>
  Modelled from the spec: the port descriptor store
  (\<^verbatim>\<open>snippets/lowered/port_descriptor.hpp\<close>) is not under src/. It gives "get/set of shape
  and layout" on the descriptor of a port, "mutations are visible to all future readers";
  every port has a descriptor.
\<close>

definition get_port_descriptor :: "graph \<Rightarrow> port \<Rightarrow> port_descriptor" where
  "get_port_descriptor g p = descs g p"

definition get_layout :: "graph \<Rightarrow> port \<Rightarrow> nat list" where
  "get_layout g p = layout (get_port_descriptor g p)"

definition set_shape :: "graph \<Rightarrow> port \<Rightarrow> nat list \<Rightarrow> graph" where
  "set_shape g p s = g\<lparr>descs := (descs g)(p := (descs g p)\<lparr>shape := s\<rparr>)\<rparr>"

definition set_layout :: "graph \<Rightarrow> port \<Rightarrow> nat list \<Rightarrow> graph" where
  "set_layout g p l = g\<lparr>descs := (descs g)(p := (descs g p)\<lparr>layout := l\<rparr>)\<rparr>"

text \<open>
  Modelled from the spec: \<^verbatim>\<open>Brgemm::validate_and_infer_types\<close> is not under src/. It
  "recomputes and stores the node's output shape/type from its current inputs; fails
  only via a fatal internal-consistency error". The inference itself is the parameter
  \<open>infer\<close>; its result is stored as the output shapes of the node.
\<close>

type_synonym shape_inference = "graph \<Rightarrow> node_id \<Rightarrow> error + nat list list"

definition validate_and_infer_types :: "shape_inference \<Rightarrow> graph \<Rightarrow> node_id \<Rightarrow> error + graph" where
  "validate_and_infer_types infer g n =
     bind_result (infer g n)
       (\<lambda>shapes. Inr (g\<lparr>nodes := (nodes g)[n := (nodes g ! n)\<lparr>out_shapes := shapes\<rparr>]\<rparr>))"

section \<open>The pass\<close>

subsection \<open>is_supported_transpose (lines 30-40)\<close>

definition is_supported_transpose :: "graph \<Rightarrow> node_output \<Rightarrow> error + bool" where
  "is_supported_transpose g transpose_out =
     (case as_transpose g (fst transpose_out) of
        None \<Rightarrow> Inr False
      | Some transpose_node \<Rightarrow>
          bind_result (get_input_node_shared_ptr g transpose_node 1)
            (\<lambda>n. case as_constant g n of
                    None \<Rightarrow> Inr False
                  | Some order \<Rightarrow> Inr (is_supported_transpose_order (cast_vector_i32 order))))"

subsection \<open>The pattern (lines 49-66)\<close>

text \<open>
  Modelled from the spec: the pattern primitives (\<^verbatim>\<open>openvino/pass/pattern\<close>) are not
  under src/; they provide "structural matching". \<^verbatim>\<open>wrap_type<T>({p0, p1}, pred)\<close> matches
  a value produced by a node of type \<open>T\<close> with two inputs whose sources match \<open>p0\<close> and
  \<open>p1\<close>, and on which \<open>pred\<close> holds; \<^verbatim>\<open>any_input()\<close> matches every value; \<^verbatim>\<open>Or\<close>
  matches when one of its alternatives does. The patterns themselves are those of
  lines 49-66.
\<close>

definition m_constant :: "graph \<Rightarrow> node_output \<Rightarrow> bool" where
  "m_constant g v = (as_constant g (fst v) \<noteq> None)"

definition m_transpose :: "graph \<Rightarrow> node_output \<Rightarrow> bool" where
  "m_transpose g v =
     (case node_at g (fst v) of
        None \<Rightarrow> False
      | Some nd \<Rightarrow> node_op nd = Transpose \<and> length (inputs nd) = 2 \<and>
                   m_constant g (inputs nd ! 1) \<and> is_supported_transpose g v = Inr True)"

definition m_brgemm_in0 :: "graph \<Rightarrow> node_output \<Rightarrow> bool" where
  "m_brgemm_in0 g v =
     (case node_at g (fst v) of
        None \<Rightarrow> False
      | Some nd \<Rightarrow> node_op nd = Brgemm \<and> length (inputs nd) = 2 \<and> m_transpose g (inputs nd ! 0))"

definition m_brgemm_in1 :: "graph \<Rightarrow> node_output \<Rightarrow> bool" where
  "m_brgemm_in1 g v =
     (case node_at g (fst v) of
        None \<Rightarrow> False
      | Some nd \<Rightarrow> node_op nd = Brgemm \<and> length (inputs nd) = 2 \<and> m_transpose g (inputs nd ! 1))"

definition m_brgemm_out :: "graph \<Rightarrow> node_output \<Rightarrow> bool" where
  "m_brgemm_out g v =
     (case node_at g (fst v) of
        None \<Rightarrow> False
      | Some nd \<Rightarrow> node_op nd = Brgemm \<and> length (inputs nd) = 2)"

definition m_transpose2 :: "graph \<Rightarrow> node_output \<Rightarrow> bool" where
  "m_transpose2 g v =
     (case node_at g (fst v) of
        None \<Rightarrow> False
      | Some nd \<Rightarrow> node_op nd = Transpose \<and> length (inputs nd) = 2 \<and>
                   m_brgemm_out g (inputs nd ! 0) \<and> m_constant g (inputs nd ! 1) \<and>
                   is_supported_transpose g v = Inr True)"

definition m_brgemm_or_transpose :: "graph \<Rightarrow> node_output \<Rightarrow> bool" where
  "m_brgemm_or_transpose g v = (m_brgemm_in0 g v \<or> m_brgemm_in1 g v \<or> m_transpose2 g v)"

subsection \<open>The callback (lines 68-125)\<close>

text \<open>
  Lines 89-103, entered when the match root is not a Brgemm: the Brgemm is the producer
  of input 0 of the root, and the matched value is output 0 of the root. The result is
  the graph together with the Brgemm found.
\<close>

definition output_fusion :: "graph \<Rightarrow> node_id \<Rightarrow> error + (graph \<times> node_id)" where
  "output_fusion g root =
     bind_result (get_input_node_shared_ptr g root 0) (\<lambda>n0.
     case as_brgemm g n0 of
       None \<Rightarrow> Inl NullPointer
     | Some brgemm \<Rightarrow>
         (let brgemm_out = (brgemm, 0);
              transpose_out = (root, 0)
          in bind_result (get_input_node_shared_ptr g root 1) (\<lambda>n1.
             let original_port = OutPort (fst brgemm_out) (snd brgemm_out)
             in bind_result (get_partial_shape g transpose_out) (\<lambda>pshape.
                let g1 = set_shape g original_port (pshape_to_vdims pshape);
                    out_layout = get_layout g1 original_port
                in case as_constant g1 n1 of
                     None \<Rightarrow> Inl NullPointer
                   | Some const_order \<Rightarrow>
                       (let transpose_order = cast_vector_size_t const_order
                        in bind_result (fuse_layouts out_layout transpose_order) (\<lambda>fused.
                           let g2 = set_layout g1 original_port fused
                           in Inr (fold (\<lambda>inp h. replace_source_output h inp (brgemm, 0))
                                        (get_target_inputs g2 transpose_out) g2,
                                   brgemm)))))))"

text \<open>The body of the loop of lines 105-119 for input \<open>i\<close> of the Brgemm.\<close>

definition fuse_input :: "graph \<Rightarrow> node_id \<Rightarrow> nat \<Rightarrow> error + graph" where
  "fuse_input g brgemm i =
     bind_result (input_value g brgemm i) (\<lambda>in_value.
     bind_result (is_supported_transpose g in_value) (\<lambda>supported.
     if supported then
       (let transpose_node = fst in_value
        in bind_result (get_input_node_shared_ptr g transpose_node 1) (\<lambda>n1.
           case as_constant g n1 of
             None \<Rightarrow> Inl NullPointer
           | Some const_order \<Rightarrow>
               bind_result (input_value g transpose_node 0) (\<lambda>data.
               let g1 = set_argument g brgemm i data;
                   original_port = InPort brgemm i;
                   in_layout = get_layout g1 original_port;
                   transpose_order = cast_vector_size_t const_order
               in bind_result (get_input_partial_shape g1 transpose_node 0) (\<lambda>pshape.
                  let g2 = set_shape g1 original_port (pshape_to_vdims pshape)
                  in bind_result (fuse_layouts transpose_order in_layout) (\<lambda>fused.
                     Inr (set_layout g2 original_port fused))))))
     else Inr g))"

function input_loop :: "graph \<Rightarrow> node_id \<Rightarrow> nat \<Rightarrow> error + graph" where
  "input_loop g brgemm i =
     (if i < get_input_size g brgemm then
        (case fuse_input g brgemm i of
           Inl e \<Rightarrow> Inl e
         | Inr g' \<Rightarrow> input_loop g' brgemm (Suc i))
      else Inr g)"
  by pat_completeness auto
termination
proof (relation "measure (\<lambda>(g, brgemm, i). get_input_size g brgemm - i)")
  show "wf (measure (\<lambda>(g, brgemm, i). get_input_size g brgemm - i))" by simp
next
  fix g :: graph and brgemm i g'
  assume lt: "i < get_input_size g brgemm" and step: "fuse_input g brgemm i = Inr g'"
  have "get_input_size g' brgemm = get_input_size g brgemm"
    using step
    by (auto simp: fuse_input_def bind_result_def Let_def set_argument_def set_shape_def
        set_layout_def get_input_size_def node_at_def nth_list_update
        split: sum.splits option.splits if_splits)
  with lt show "((g', brgemm, Suc i), (g, brgemm, i))
      \<in> measure (\<lambda>(g, brgemm, i). get_input_size g brgemm - i)" by simp
qed

text \<open>
  The callback on the match root: lines 70 and 89 choose the Brgemm, line 123 revalidates
  it, line 124 returns \<open>true\<close>.
\<close>

definition callback :: "shape_inference \<Rightarrow> graph \<Rightarrow> node_id \<Rightarrow> error + (graph \<times> bool)" where
  "callback infer g root =
     bind_result (case as_brgemm g root of
                    Some brgemm \<Rightarrow> Inr (g, brgemm)
                  | None \<Rightarrow> output_fusion g root) (\<lambda>(g1, brgemm).
     bind_result (input_loop g1 brgemm 0) (\<lambda>g2.
     bind_result (validate_and_infer_types infer g2 brgemm) (\<lambda>g3.
     Inr (g3, True))))"

subsection \<open>The matching engine\<close>

text \<open>
  Modelled from the spec: the matching engine is not under src/. "The matching engine
  repeatedly scans the graph for any of the three pattern shapes; on each match it
  invokes the Rewrite Callback, which mutates the graph and metadata and returns
  success/failure to the engine, which then continues scanning until no further matches
  exist." A node whose value no Result depends on is no longer part of the graph
  ("Transpose Nodes are destroyed (detached from the graph) once fused"), so the scan
  visits the nodes from which a Result is reached, by position. The scan is bounded
  by \<open>fuel\<close>: \<open>None\<close> is a scan that has not ended within the bound.
\<close>

definition producers :: "graph \<Rightarrow> node_id \<Rightarrow> node_id list" where
  "producers g n = (case node_at g n of None \<Rightarrow> [] | Some nd \<Rightarrow> map fst (inputs nd))"

fun reach :: "nat \<Rightarrow> graph \<Rightarrow> node_id list \<Rightarrow> node_id list" where
  "reach 0 g front = front"
| "reach (Suc k) g front = reach k g (remdups (front @ concat (map (producers g) front)))"

definition live_nodes :: "graph \<Rightarrow> node_id list" where
  "live_nodes g =
     (let results = filter (\<lambda>n. node_op (nodes g ! n) = Result) [0..<length (nodes g)];
          reached = reach (length (nodes g)) g results
      in filter (\<lambda>n. n \<in> set reached) [0..<length (nodes g)])"

definition find_match :: "graph \<Rightarrow> node_id option" where
  "find_match g = find (\<lambda>n. m_brgemm_or_transpose g (n, 0)) (live_nodes g)"

fun run_pass :: "shape_inference \<Rightarrow> nat \<Rightarrow> graph \<Rightarrow> (error + graph) option" where
  "run_pass infer 0 g = None"
| "run_pass infer (Suc fuel) g =
     (case find_match g of
        None \<Rightarrow> Some (Inr g)
      | Some root \<Rightarrow>
          (case callback infer g root of
             Inl e \<Rightarrow> Some (Inl e)
           | Inr (g', changed) \<Rightarrow> run_pass infer fuel g'))"

subsection \<open>Well-formed graphs and predicates used in the proofs\<close>

text \<open>
  In a well-formed graph every input port is fed by an output that exists, and a
  Transpose has its two inputs, the data and the order (\<^verbatim>\<open>ov::op::v1::Transpose\<close> is
  built from exactly these two).
\<close>

definition wf_graph :: "graph \<Rightarrow> bool" where
  "wf_graph g =
     list_all (\<lambda>nd. list_all (\<lambda>v. case node_at g (fst v) of
                                     None \<Rightarrow> False
                                   | Some p \<Rightarrow> snd v < length (out_shapes p)) (inputs nd) \<and>
                    (node_op nd = Transpose \<longrightarrow> length (inputs nd) = 2))
              (nodes g)"

text \<open>
  \<open>frame b g g'\<close>: the graph \<open>g'\<close> differs from \<open>g\<close> at most in the sources of the inputs
  of node \<open>b\<close> and in the descriptors of the input ports of \<open>b\<close>.
\<close>

definition frame :: "node_id \<Rightarrow> graph \<Rightarrow> graph \<Rightarrow> bool" where
  "frame b g g' \<longleftrightarrow>
     length (nodes g') = length (nodes g) \<and>
     (\<forall>n < length (nodes g).
        node_op (nodes g' ! n) = node_op (nodes g ! n) \<and>
        out_shapes (nodes g' ! n) = out_shapes (nodes g ! n) \<and>
        length (inputs (nodes g' ! n)) = length (inputs (nodes g ! n)) \<and>
        (n \<noteq> b \<longrightarrow> inputs (nodes g' ! n) = inputs (nodes g ! n))) \<and>
     (\<forall>n k. descs g' (OutPort n k) = descs g (OutPort n k)) \<and>
     (\<forall>n k. n \<noteq> b \<longrightarrow> descs g' (InPort n k) = descs g (InPort n k))"

text \<open>
  \<open>fused_at g g' b i\<close>: what the callback has done to input \<open>i\<close> of the Brgemm \<open>b\<close>
  between \<open>g\<close> and \<open>g'\<close>. When the source of the input is a supported transpose in \<open>g\<close>,
  the input is fed by the data input of the transpose, the descriptor of the port has
  the shape of that data and the layout \<open>fuse_layouts order layout\<close> of the order of the
  transpose and the layout recorded in \<open>g\<close>; otherwise source and descriptor are as in \<open>g\<close>.
\<close>

definition fused_at :: "graph \<Rightarrow> graph \<Rightarrow> node_id \<Rightarrow> nat \<Rightarrow> bool" where
  "fused_at g g' b i \<longleftrightarrow>
     (\<exists>v. input_value g b i = Inr v \<and>
        (if is_supported_transpose g v = Inr True then
           (\<exists>c d src ps l.
              get_input_node_shared_ptr g (fst v) 1 = Inr c \<and> as_constant g c = Some d \<and>
              input_value g (fst v) 0 = Inr src \<and> get_partial_shape g src = Inr ps \<and>
              fuse_layouts (cast_vector_size_t d) (layout (descs g (InPort b i))) = Inr l \<and>
              input_value g' b i = Inr src \<and>
              shape (descs g' (InPort b i)) = pshape_to_vdims ps \<and>
              layout (descs g' (InPort b i)) = l)
         else input_value g' b i = Inr v \<and> descs g' (InPort b i) = descs g (InPort b i)))"

text \<open>
  \<open>rewired old new g g'\<close>: the graph \<open>g'\<close> is \<open>g\<close> with every input port that was fed
  by \<open>old\<close> now fed by \<open>new\<close>.
\<close>

definition rewired :: "node_output \<Rightarrow> node_output \<Rightarrow> graph \<Rightarrow> graph \<Rightarrow> bool" where
  "rewired old new g g' \<longleftrightarrow>
     length (nodes g') = length (nodes g) \<and>
     (\<forall>n < length (nodes g).
        node_op (nodes g' ! n) = node_op (nodes g ! n) \<and>
        out_shapes (nodes g' ! n) = out_shapes (nodes g ! n) \<and>
        length (inputs (nodes g' ! n)) = length (inputs (nodes g ! n)) \<and>
        (\<forall>k < length (inputs (nodes g ! n)).
           inputs (nodes g' ! n) ! k =
             (if inputs (nodes g ! n) ! k = old then new else inputs (nodes g ! n) ! k)))"

subsection \<open>Example graphs\<close>

text \<open>
  \<open>keep_shapes\<close> is a shape inference that returns the shapes a node already has, and
  \<open>no_descs\<close> the store in which no port has a shape or a layout recorded yet.

  \<open>g_inputs\<close>: a Brgemm (node 6) whose two inputs are produced by transposes with order
  \<open>[1, 0, 2]\<close> (nodes 2 and 5); \<open>g_inputs_fused\<close> is the graph after the callback.

  \<open>g_output\<close>: a Brgemm (node 2) whose output, recorded with shape \<open>[8, 4, 16]\<close> and no
  layout, feeds a transpose with order \<open>[0, 2, 1]\<close> (node 4) that has two consumers.
  \<open>g_output_ok\<close> is the same graph with the order \<open>[1, 0, 2]\<close>, which keeps the last
  dimension in place; \<open>g_output_fused\<close> is that graph after the callback.

  \<open>g_values\<close>: a Parameter (node 0), a transpose whose order is not a constant (node 2),
  a transpose with order \<open>[1, 0]\<close> (node 4) and one with order \<open>[0, 1]\<close> (node 6).

  \<open>g_inputs_prior\<close> is \<open>g_inputs\<close> with the layout \<open>[2, 0, 1]\<close> recorded on input port 0 of
  the Brgemm; \<open>g_inputs_prior_fused\<close> is that graph after the callback.

  \<open>g_both\<close>: a Brgemm (node 4) with the layout \<open>[2, 0, 1]\<close> recorded on input port 0 and on
  output port 0, whose input 0 is produced by a transpose with order \<open>[1, 0, 2]\<close> (node 2)
  and whose output feeds a transpose with order \<open>[1, 0, 2]\<close> (node 6), consumed by a Result;
  \<open>g_both_fused\<close> is that graph after the callback on node 6.

  \<open>g_output_result\<close> is \<open>g_output\<close> after the callback on its transpose (node 4).

  \<open>g_bad\<close>: a Brgemm (node 6) whose input 0 is produced by a transpose with the constant
  \<open>[0, 0, 2]\<close> on a rank-3 input and whose input 1 by a transpose with the constant
  \<open>[0, 1]\<close> on a rank-3 input; \<open>g_bad_fused\<close> is that graph after the callback.
\<close>

definition keep_shapes :: shape_inference where
  "keep_shapes g n = Inr (out_shapes (nodes g ! n))"

definition no_descs :: "port \<Rightarrow> port_descriptor" where
  "no_descs p = \<lparr>shape = [], layout = []\<rparr>"

definition g_inputs :: graph where
  "g_inputs = \<lparr>nodes = [
     \<lparr>node_op = Parameter, inputs = [], out_shapes = [[4, 8, 16]]\<rparr>,
     \<lparr>node_op = Constant [1, 0, 2], inputs = [], out_shapes = [[3]]\<rparr>,
     \<lparr>node_op = Transpose, inputs = [(0, 0), (1, 0)], out_shapes = [[8, 4, 16]]\<rparr>,
     \<lparr>node_op = Parameter, inputs = [], out_shapes = [[16, 8, 32]]\<rparr>,
     \<lparr>node_op = Constant [1, 0, 2], inputs = [], out_shapes = [[3]]\<rparr>,
     \<lparr>node_op = Transpose, inputs = [(3, 0), (4, 0)], out_shapes = [[8, 16, 32]]\<rparr>,
     \<lparr>node_op = Brgemm, inputs = [(2, 0), (5, 0)], out_shapes = [[8, 4, 32]]\<rparr>,
     \<lparr>node_op = Result, inputs = [(6, 0)], out_shapes = [[8, 4, 32]]\<rparr>],
    descs = no_descs\<rparr>"

definition g_output :: graph where
  "g_output = \<lparr>nodes = [
     \<lparr>node_op = Parameter, inputs = [], out_shapes = [[8, 4, 32]]\<rparr>,
     \<lparr>node_op = Parameter, inputs = [], out_shapes = [[8, 32, 16]]\<rparr>,
     \<lparr>node_op = Brgemm, inputs = [(0, 0), (1, 0)], out_shapes = [[8, 4, 16]]\<rparr>,
     \<lparr>node_op = Constant [0, 2, 1], inputs = [], out_shapes = [[3]]\<rparr>,
     \<lparr>node_op = Transpose, inputs = [(2, 0), (3, 0)], out_shapes = [[8, 16, 4]]\<rparr>,
     \<lparr>node_op = Result, inputs = [(4, 0)], out_shapes = [[8, 16, 4]]\<rparr>,
     \<lparr>node_op = Other, inputs = [(4, 0)], out_shapes = [[8, 16, 4]]\<rparr>],
    descs = no_descs(OutPort 2 0 := \<lparr>shape = [8, 4, 16], layout = []\<rparr>)\<rparr>"

definition g_output_ok :: graph where
  "g_output_ok = \<lparr>nodes = [
     \<lparr>node_op = Parameter, inputs = [], out_shapes = [[8, 4, 32]]\<rparr>,
     \<lparr>node_op = Parameter, inputs = [], out_shapes = [[8, 32, 16]]\<rparr>,
     \<lparr>node_op = Brgemm, inputs = [(0, 0), (1, 0)], out_shapes = [[8, 4, 16]]\<rparr>,
     \<lparr>node_op = Constant [1, 0, 2], inputs = [], out_shapes = [[3]]\<rparr>,
     \<lparr>node_op = Transpose, inputs = [(2, 0), (3, 0)], out_shapes = [[4, 8, 16]]\<rparr>,
     \<lparr>node_op = Result, inputs = [(4, 0)], out_shapes = [[4, 8, 16]]\<rparr>,
     \<lparr>node_op = Other, inputs = [(4, 0)], out_shapes = [[4, 8, 16]]\<rparr>],
    descs = no_descs(OutPort 2 0 := \<lparr>shape = [8, 4, 16], layout = []\<rparr>)\<rparr>"

definition g_values :: graph where
  "g_values = \<lparr>nodes = [
     \<lparr>node_op = Parameter, inputs = [], out_shapes = [[4, 8]]\<rparr>,
     \<lparr>node_op = Parameter, inputs = [], out_shapes = [[2]]\<rparr>,
     \<lparr>node_op = Transpose, inputs = [(0, 0), (1, 0)], out_shapes = [[8, 4]]\<rparr>,
     \<lparr>node_op = Constant [1, 0], inputs = [], out_shapes = [[2]]\<rparr>,
     \<lparr>node_op = Transpose, inputs = [(0, 0), (3, 0)], out_shapes = [[8, 4]]\<rparr>,
     \<lparr>node_op = Constant [0, 1], inputs = [], out_shapes = [[2]]\<rparr>,
     \<lparr>node_op = Transpose, inputs = [(0, 0), (5, 0)], out_shapes = [[4, 8]]\<rparr>],
    descs = no_descs\<rparr>"

definition g_inputs_fused :: graph where
  "g_inputs_fused = \<lparr>nodes = [
     \<lparr>node_op = Parameter, inputs = [], out_shapes = [[4, 8, 16]]\<rparr>,
     \<lparr>node_op = Constant [1, 0, 2], inputs = [], out_shapes = [[3]]\<rparr>,
     \<lparr>node_op = Transpose, inputs = [(0, 0), (1, 0)], out_shapes = [[8, 4, 16]]\<rparr>,
     \<lparr>node_op = Parameter, inputs = [], out_shapes = [[16, 8, 32]]\<rparr>,
     \<lparr>node_op = Constant [1, 0, 2], inputs = [], out_shapes = [[3]]\<rparr>,
     \<lparr>node_op = Transpose, inputs = [(3, 0), (4, 0)], out_shapes = [[8, 16, 32]]\<rparr>,
     \<lparr>node_op = Brgemm, inputs = [(0, 0), (3, 0)], out_shapes = [[8, 4, 32]]\<rparr>,
     \<lparr>node_op = Result, inputs = [(6, 0)], out_shapes = [[8, 4, 32]]\<rparr>],
    descs = no_descs(InPort 6 0 := \<lparr>shape = [4, 8, 16], layout = [1, 0, 2]\<rparr>,
                     InPort 6 1 := \<lparr>shape = [16, 8, 32], layout = [1, 0, 2]\<rparr>)\<rparr>"

definition g_output_fused :: graph where
  "g_output_fused = \<lparr>nodes = [
     \<lparr>node_op = Parameter, inputs = [], out_shapes = [[8, 4, 32]]\<rparr>,
     \<lparr>node_op = Parameter, inputs = [], out_shapes = [[8, 32, 16]]\<rparr>,
     \<lparr>node_op = Brgemm, inputs = [(0, 0), (1, 0)], out_shapes = [[8, 4, 16]]\<rparr>,
     \<lparr>node_op = Constant [1, 0, 2], inputs = [], out_shapes = [[3]]\<rparr>,
     \<lparr>node_op = Transpose, inputs = [(2, 0), (3, 0)], out_shapes = [[4, 8, 16]]\<rparr>,
     \<lparr>node_op = Result, inputs = [(2, 0)], out_shapes = [[4, 8, 16]]\<rparr>,
     \<lparr>node_op = Other, inputs = [(2, 0)], out_shapes = [[4, 8, 16]]\<rparr>],
    descs = no_descs(OutPort 2 0 := \<lparr>shape = [4, 8, 16], layout = [1, 0, 2]\<rparr>)\<rparr>"

definition g_inputs_prior :: graph where
  "g_inputs_prior = \<lparr>nodes = [
     \<lparr>node_op = Parameter, inputs = [], out_shapes = [[4, 8, 16]]\<rparr>,
     \<lparr>node_op = Constant [1, 0, 2], inputs = [], out_shapes = [[3]]\<rparr>,
     \<lparr>node_op = Transpose, inputs = [(0, 0), (1, 0)], out_shapes = [[8, 4, 16]]\<rparr>,
     \<lparr>node_op = Parameter, inputs = [], out_shapes = [[16, 8, 32]]\<rparr>,
     \<lparr>node_op = Constant [1, 0, 2], inputs = [], out_shapes = [[3]]\<rparr>,
     \<lparr>node_op = Transpose, inputs = [(3, 0), (4, 0)], out_shapes = [[8, 16, 32]]\<rparr>,
     \<lparr>node_op = Brgemm, inputs = [(2, 0), (5, 0)], out_shapes = [[8, 4, 32]]\<rparr>,
     \<lparr>node_op = Result, inputs = [(6, 0)], out_shapes = [[8, 4, 32]]\<rparr>],
    descs = no_descs(InPort 6 0 := \<lparr>shape = [8, 4, 16], layout = [2, 0, 1]\<rparr>)\<rparr>"

definition g_inputs_prior_fused :: graph where
  "g_inputs_prior_fused = \<lparr>nodes = [
     \<lparr>node_op = Parameter, inputs = [], out_shapes = [[4, 8, 16]]\<rparr>,
     \<lparr>node_op = Constant [1, 0, 2], inputs = [], out_shapes = [[3]]\<rparr>,
     \<lparr>node_op = Transpose, inputs = [(0, 0), (1, 0)], out_shapes = [[8, 4, 16]]\<rparr>,
     \<lparr>node_op = Parameter, inputs = [], out_shapes = [[16, 8, 32]]\<rparr>,
     \<lparr>node_op = Constant [1, 0, 2], inputs = [], out_shapes = [[3]]\<rparr>,
     \<lparr>node_op = Transpose, inputs = [(3, 0), (4, 0)], out_shapes = [[8, 16, 32]]\<rparr>,
     \<lparr>node_op = Brgemm, inputs = [(0, 0), (3, 0)], out_shapes = [[8, 4, 32]]\<rparr>,
     \<lparr>node_op = Result, inputs = [(6, 0)], out_shapes = [[8, 4, 32]]\<rparr>],
    descs = no_descs(InPort 6 0 := \<lparr>shape = [4, 8, 16], layout = [2, 1, 0]\<rparr>,
                     InPort 6 1 := \<lparr>shape = [16, 8, 32], layout = [1, 0, 2]\<rparr>)\<rparr>"

definition g_both :: graph where
  "g_both = \<lparr>nodes = [
     \<lparr>node_op = Parameter, inputs = [], out_shapes = [[4, 8, 32]]\<rparr>,
     \<lparr>node_op = Constant [1, 0, 2], inputs = [], out_shapes = [[3]]\<rparr>,
     \<lparr>node_op = Transpose, inputs = [(0, 0), (1, 0)], out_shapes = [[8, 4, 32]]\<rparr>,
     \<lparr>node_op = Parameter, inputs = [], out_shapes = [[8, 32, 16]]\<rparr>,
     \<lparr>node_op = Brgemm, inputs = [(2, 0), (3, 0)], out_shapes = [[8, 4, 16]]\<rparr>,
     \<lparr>node_op = Constant [1, 0, 2], inputs = [], out_shapes = [[3]]\<rparr>,
     \<lparr>node_op = Transpose, inputs = [(4, 0), (5, 0)], out_shapes = [[4, 8, 16]]\<rparr>,
     \<lparr>node_op = Result, inputs = [(6, 0)], out_shapes = [[4, 8, 16]]\<rparr>],
    descs = no_descs(OutPort 4 0 := \<lparr>shape = [8, 4, 16], layout = [2, 0, 1]\<rparr>,
                     InPort 4 0 := \<lparr>shape = [8, 4, 32], layout = [2, 0, 1]\<rparr>)\<rparr>"

definition g_both_fused :: graph where
  "g_both_fused = \<lparr>nodes = [
     \<lparr>node_op = Parameter, inputs = [], out_shapes = [[4, 8, 32]]\<rparr>,
     \<lparr>node_op = Constant [1, 0, 2], inputs = [], out_shapes = [[3]]\<rparr>,
     \<lparr>node_op = Transpose, inputs = [(0, 0), (1, 0)], out_shapes = [[8, 4, 32]]\<rparr>,
     \<lparr>node_op = Parameter, inputs = [], out_shapes = [[8, 32, 16]]\<rparr>,
     \<lparr>node_op = Brgemm, inputs = [(0, 0), (3, 0)], out_shapes = [[8, 4, 16]]\<rparr>,
     \<lparr>node_op = Constant [1, 0, 2], inputs = [], out_shapes = [[3]]\<rparr>,
     \<lparr>node_op = Transpose, inputs = [(4, 0), (5, 0)], out_shapes = [[4, 8, 16]]\<rparr>,
     \<lparr>node_op = Result, inputs = [(4, 0)], out_shapes = [[4, 8, 16]]\<rparr>],
    descs = no_descs(OutPort 4 0 := \<lparr>shape = [4, 8, 16], layout = [0, 2, 1]\<rparr>,
                     InPort 4 0 := \<lparr>shape = [4, 8, 32], layout = [2, 1, 0]\<rparr>)\<rparr>"

definition g_output_result :: graph where
  "g_output_result = \<lparr>nodes = [
     \<lparr>node_op = Parameter, inputs = [], out_shapes = [[8, 4, 32]]\<rparr>,
     \<lparr>node_op = Parameter, inputs = [], out_shapes = [[8, 32, 16]]\<rparr>,
     \<lparr>node_op = Brgemm, inputs = [(0, 0), (1, 0)], out_shapes = [[8, 4, 16]]\<rparr>,
     \<lparr>node_op = Constant [0, 2, 1], inputs = [], out_shapes = [[3]]\<rparr>,
     \<lparr>node_op = Transpose, inputs = [(2, 0), (3, 0)], out_shapes = [[8, 16, 4]]\<rparr>,
     \<lparr>node_op = Result, inputs = [(2, 0)], out_shapes = [[8, 16, 4]]\<rparr>,
     \<lparr>node_op = Other, inputs = [(2, 0)], out_shapes = [[8, 16, 4]]\<rparr>],
    descs = no_descs(OutPort 2 0 := \<lparr>shape = [8, 16, 4], layout = [0, 2, 1]\<rparr>)\<rparr>"

definition g_bad :: graph where
  "g_bad = \<lparr>nodes = [
     \<lparr>node_op = Parameter, inputs = [], out_shapes = [[4, 8, 16]]\<rparr>,
     \<lparr>node_op = Constant [0, 0, 2], inputs = [], out_shapes = [[3]]\<rparr>,
     \<lparr>node_op = Transpose, inputs = [(0, 0), (1, 0)], out_shapes = [[4, 4, 16]]\<rparr>,
     \<lparr>node_op = Parameter, inputs = [], out_shapes = [[2, 3, 5]]\<rparr>,
     \<lparr>node_op = Constant [0, 1], inputs = [], out_shapes = [[2]]\<rparr>,
     \<lparr>node_op = Transpose, inputs = [(3, 0), (4, 0)], out_shapes = [[2, 3, 5]]\<rparr>,
     \<lparr>node_op = Brgemm, inputs = [(2, 0), (5, 0)], out_shapes = [[4, 4, 5]]\<rparr>,
     \<lparr>node_op = Result, inputs = [(6, 0)], out_shapes = [[4, 4, 5]]\<rparr>],
    descs = no_descs\<rparr>"

definition g_bad_fused :: graph where
  "g_bad_fused = \<lparr>nodes = [
     \<lparr>node_op = Parameter, inputs = [], out_shapes = [[4, 8, 16]]\<rparr>,
     \<lparr>node_op = Constant [0, 0, 2], inputs = [], out_shapes = [[3]]\<rparr>,
     \<lparr>node_op = Transpose, inputs = [(0, 0), (1, 0)], out_shapes = [[4, 4, 16]]\<rparr>,
     \<lparr>node_op = Parameter, inputs = [], out_shapes = [[2, 3, 5]]\<rparr>,
     \<lparr>node_op = Constant [0, 1], inputs = [], out_shapes = [[2]]\<rparr>,
     \<lparr>node_op = Transpose, inputs = [(3, 0), (4, 0)], out_shapes = [[2, 3, 5]]\<rparr>,
     \<lparr>node_op = Brgemm, inputs = [(0, 0), (3, 0)], out_shapes = [[4, 4, 5]]\<rparr>,
     \<lparr>node_op = Result, inputs = [(6, 0)], out_shapes = [[4, 4, 5]]\<rparr>],
    descs = no_descs(InPort 6 0 := \<lparr>shape = [4, 8, 16], layout = [0, 0, 2]\<rparr>,
                     InPort 6 1 := \<lparr>shape = [2, 3, 5], layout = [0, 1]\<rparr>)\<rparr>"

section \<open>Properties\<close>




subsection \<open>Permutations and 32-bit words\<close>

lemma valid_permutation_set: "valid_permutation l \<Longrightarrow> set l = {0..<length l}"
  unfolding valid_permutation_def by (metis mset_eq_setD set_upt)

lemma valid_permutation_nth: "valid_permutation l \<Longrightarrow> i < length l \<Longrightarrow> l ! i < length l"
  using valid_permutation_set[of l] nth_mem[of i l] by auto

lemma valid_permutation_compose:
  assumes "valid_permutation outer" "valid_permutation inner" "length outer = length inner"
  shows "valid_permutation (map (\<lambda>j. outer ! j) inner)"
proof -
  have "mset (map (\<lambda>j. outer ! j) inner) = image_mset (\<lambda>j. outer ! j) (mset inner)" by simp
  also have "\<dots> = image_mset (\<lambda>j. outer ! j) (mset [0..<length outer])"
    using assms(2,3) by (simp add: valid_permutation_def)
  also have "\<dots> = mset (map (\<lambda>j. outer ! j) [0..<length outer])" by simp
  also have "\<dots> = mset outer" by (simp only: map_nth)
  also have "\<dots> = mset [0..<length (map (\<lambda>j. outer ! j) inner)]"
    using assms(1,3) by (simp add: valid_permutation_def)
  finally show ?thesis by (simp only: valid_permutation_def)
qed


lemma sint_word_of_int_32:
  fixes k :: int
  assumes "0 \<le> k" "k < 2 ^ 31"
  shows "sint (word_of_int k :: 32 word) = k"
proof -
  have "sint (word_of_int k :: 32 word) = signed_take_bit (LENGTH(32) - 1) k"
    by (rule sint_sbintrunc')
  also have "\<dots> = signed_take_bit 31 k" by simp
  also have "\<dots> = k"
  proof (rule signed_take_bit_int_eq_self)
    show "- (2 ^ 31) \<le> k" using assms(1) by (rule order_trans[rotated]) simp
    show "k < 2 ^ 31" by (rule assms(2))
  qed
  finally show ?thesis .
qed

lemma word_of_int_sint_32: "word_of_int (sint x) = (x :: 32 word)"
  by (simp only: of_int_sint scast_id)

lemma word_of_nat_pred_32: "(word_of_nat n :: 32 word) - 1 = word_of_int (int n - 1)"
  by (simp only: of_int_diff of_int_of_nat_eq of_int_1)

lemma order_check_iff:
  fixes x :: "32 word"
  assumes "0 < n" "int n - 1 < 2 ^ 31"
  shows "x = word_of_nat n - 1 \<longleftrightarrow> sint x = int n - 1"
proof
  have "0 \<le> int n - 1" using assms(1) by linarith
  then have s: "sint (word_of_int (int n - 1) :: 32 word) = int n - 1"
    using assms(2) by (rule sint_word_of_int_32)
  assume "x = word_of_nat n - 1"
  then show "sint x = int n - 1" by (simp only: word_of_nat_pred_32 s)
next
  assume "sint x = int n - 1"
  then have "word_of_int (sint x) = (word_of_int (int n - 1) :: 32 word)" by (rule arg_cong)
  then show "x = word_of_nat n - 1" by (simp only: word_of_int_sint_32 word_of_nat_pred_32)
qed

lemma valid_permutation_i32_bounds:
  assumes "valid_permutation_i32 p" "p \<noteq> []"
  shows "int (length p) - 1 < 2 ^ 31"
proof -
  have "length p - 1 \<in> set [0..<length p]" using assms(2) by simp
  then have "int (length p - 1) \<in> set (map int [0..<length p])" by (simp only: set_map image_eqI)
  then have "int (length p - 1) \<in> set (map sint p)"
    using assms(1) unfolding valid_permutation_i32_def by (metis mset_eq_setD)
  then obtain w :: "32 word" where "sint w = int (length p - 1)" by auto
  moreover have "sint w < 2 ^ 31" using sint_lt[of w] by simp
  moreover have "length p > 0" using assms(2) by simp
  ultimately show ?thesis by simp
qed

lemma is_supported_transpose_order_iff:
  assumes "order \<noteq> []" "int (length order) - 1 < 2 ^ 31"
  shows "is_supported_transpose_order order \<longleftrightarrow> sint (last order) = int (length order) - 1"
proof -
  have "0 < length order" using assms(1) by simp
  then have "last order = word_of_nat (length order) - 1 \<longleftrightarrow> sint (last order) = int (length order) - 1"
    using assms(2) by (rule order_check_iff)
  then show ?thesis using assms(1) by (simp add: is_supported_transpose_order_def)
qed

subsection \<open>The loop of fuse_layouts\<close>

lemma fuse_layouts_loop_ok:
  "length layout_2 = length layout_1 \<Longrightarrow> length fused = length layout_1 \<Longrightarrow>
   \<forall>j < length layout_2. i \<le> j \<longrightarrow> layout_2 ! j < length layout_1 \<Longrightarrow>
   fuse_layouts_loop layout_1 layout_2 i fused =
     Inr (take i fused @ map (\<lambda>j. layout_1 ! j) (drop i layout_2))"
proof (induction layout_1 layout_2 i fused rule: fuse_layouts_loop.induct)
  case (1 layout_1 layout_2 i fused)
  show ?case
  proof (cases "i < length layout_1")
    case True
    with "1.prems" have inb: "layout_2 ! i < length layout_1" by simp
    have "fuse_layouts_loop layout_1 layout_2 (Suc i) (fused[i := layout_1 ! (layout_2 ! i)]) =
      Inr (take (Suc i) (fused[i := layout_1 ! (layout_2 ! i)]) @ map (\<lambda>j. layout_1 ! j) (drop (Suc i) layout_2))"
      using "1.IH"[OF True inb] "1.prems" by simp
    moreover have "take (Suc i) (fused[i := layout_1 ! (layout_2 ! i)]) = take i fused @ [layout_1 ! (layout_2 ! i)]"
      using True "1.prems" by (simp add: take_Suc_conv_app_nth)
    moreover have "drop i layout_2 = layout_2 ! i # drop (Suc i) layout_2"
      using True "1.prems" by (simp add: Cons_nth_drop_Suc)
    ultimately show ?thesis using True inb by simp
  next
    case False
    with "1.prems" show ?thesis by simp
  qed
qed

lemma fuse_layouts_loop_fail:
  "i \<le> j \<Longrightarrow> j < length layout_1 \<Longrightarrow> \<not> layout_2 ! j < length layout_1 \<Longrightarrow>
   \<exists>msg. fuse_layouts_loop layout_1 layout_2 i fused = Inl (AssertFailure msg)"
proof (induction layout_1 layout_2 i fused rule: fuse_layouts_loop.induct)
  case (1 layout_1 layout_2 i fused)
  show ?case
  proof (cases "layout_2 ! i < length layout_1")
    case True
    with "1.prems" have "i \<noteq> j" by auto
    with "1.prems" have "Suc i \<le> j" "i < length layout_1" by auto
    with "1.IH"[OF _ True] "1.prems" True show ?thesis by simp
  next
    case False
    with "1.prems" show ?thesis by simp
  qed
qed

text \<open>Both vectors non-empty, of equal size, every entry of the second in range: the
  result is the first vector read at the entries of the second.\<close>

lemma fuse_layouts_in_range:
  assumes "layout_1 \<noteq> []" "length layout_2 = length layout_1"
    and "\<forall>j < length layout_2. layout_2 ! j < length layout_1"
  shows "fuse_layouts layout_1 layout_2 = Inr (map (\<lambda>j. layout_1 ! j) layout_2)"
proof -
  have "layout_2 \<noteq> []" using assms(1,2) by auto
  moreover have "fuse_layouts_loop layout_1 layout_2 0 (replicate (length layout_1) 0) =
      Inr (take 0 (replicate (length layout_1) 0) @ map (\<lambda>j. layout_1 ! j) (drop 0 layout_2))"
    using assms(2,3) by (intro fuse_layouts_loop_ok) simp_all
  ultimately show ?thesis using assms(1,2) by (simp add: fuse_layouts_def)
qed

lemma fuse_layouts_permutations:
  assumes "valid_permutation outer" "valid_permutation inner" "length outer = length inner"
  shows "fuse_layouts outer inner = Inr (map (\<lambda>j. outer ! j) inner)"
proof (cases "outer = []")
  case True
  then show ?thesis using assms(3) by (simp add: fuse_layouts_def)
next
  case False
  have "\<forall>j < length inner. inner ! j < length outer"
    using valid_permutation_nth[OF assms(2)] assms(3) by simp
  with False assms(3) show ?thesis by (intro fuse_layouts_in_range) simp_all
qed

subsection \<open>The layout composer and the eligibility check\<close>

text \<open>
  Claim C3. For valid permutations \<open>outer\<close> and \<open>inner\<close> of equal length (of any
  rank, so also of every rank up to 4), \<open>fuse_layouts outer inner\<close> returns a vector
  of that length, itself a valid permutation, whose entry at each index \<open>i\<close> is
  \<open>outer ! (inner ! i)\<close>.
\<close>
theorem fuse_layouts_composition:
  assumes "valid_permutation outer" "valid_permutation inner" "length outer = length inner"
  shows "\<exists>fused. fuse_layouts outer inner = Inr fused \<and> length fused = length inner \<and>
           valid_permutation fused \<and> (\<forall>i < length inner. fused ! i = outer ! (inner ! i))"
  using fuse_layouts_permutations[OF assms] valid_permutation_compose[OF assms] by simp

theorem fuse_layouts_composition_witness:
  "valid_permutation [1, 0, 2] \<and> valid_permutation [2, 0, 1] \<and> length [1, 0, 2::nat] = length [2, 0, 1::nat] \<and>
   (\<exists>fused. fuse_layouts [1, 0, 2] [2, 0, 1] = Inr fused \<and> length fused = length [2, 0, 1::nat] \<and>
           valid_permutation fused \<and> (\<forall>i < length [2, 0, 1::nat]. fused ! i = [1, 0, 2] ! ([2, 0, 1] ! i)))"
proof -
  have a: "valid_permutation [1, 0, 2]" by (simp add: valid_permutation_def)
  have b: "valid_permutation [2, 0, 1]" by (simp add: valid_permutation_def)
  have c: "length [1, 0, 2::nat] = length [2, 0, 1::nat]" by simp
  show ?thesis using a b c fuse_layouts_composition[OF a b c] by blast
qed

text \<open>
  Claim C4. The empty vector is an identity of \<open>fuse_layouts\<close> on either side:
  composing \<open>[]\<close> with \<open>P\<close>, or \<open>P\<close> with \<open>[]\<close>, returns \<open>P\<close>, for every vector
  \<open>P\<close> and so for every valid permutation.
\<close>
theorem fuse_layouts_identity:
  "fuse_layouts [] P = Inr P \<and> fuse_layouts P [] = Inr P"
  by (simp add: fuse_layouts_def)

text \<open>
  Claim C5. On the empty vector \<open>is_supported_transpose_order\<close> is false; on a non-empty
  permutation \<open>p\<close> it is true exactly when the last element of \<open>p\<close> is the length of
  \<open>p\<close> minus one.
\<close>
theorem is_supported_transpose_order_permutation:
  "\<not> is_supported_transpose_order [] \<and>
   (p \<noteq> [] \<and> valid_permutation_i32 p \<longrightarrow>
      is_supported_transpose_order p = (sint (last p) = int (length p) - 1))"
proof -
  have "\<not> is_supported_transpose_order []" by (simp add: is_supported_transpose_order_def)
  moreover have "is_supported_transpose_order p = (sint (last p) = int (length p) - 1)"
    if "p \<noteq> []" "valid_permutation_i32 p"
    using that(1) valid_permutation_i32_bounds[OF that(2,1)] by (rule is_supported_transpose_order_iff)
  ultimately show ?thesis by blast
qed

theorem is_supported_transpose_order_permutation_witness:
  "[1, 0, 2] \<noteq> ([] :: 32 word list) \<and> valid_permutation_i32 [1, 0, 2] \<and>
   is_supported_transpose_order [1, 0, 2] \<and> sint (last [1, 0, 2 :: 32 word]) = int (length [1, 0, 2 :: 32 word]) - 1 \<and>
   [1, 0] \<noteq> ([] :: 32 word list) \<and> valid_permutation_i32 [1, 0] \<and>
   \<not> is_supported_transpose_order [1, 0] \<and> sint (last [1, 0 :: 32 word]) \<noteq> int (length [1, 0 :: 32 word]) - 1"
proof -
  have a: "valid_permutation_i32 [1, 0, 2]" by (simp add: valid_permutation_i32_def)
  have b: "valid_permutation_i32 [1, 0]" by (simp add: valid_permutation_i32_def)
  show ?thesis
    using a b is_supported_transpose_order_permutation[of "[1, 0, 2]"]
      is_supported_transpose_order_permutation[of "[1, 0]"] by simp
qed

text \<open>
  Claim C6. When both arguments of \<open>fuse_layouts\<close> are non-empty and their lengths
  differ, or some entry of the second is not below the length of the first, the result
  is a failed assertion and no vector is returned; for two valid permutations of equal
  length no assertion fires and a vector is returned.
\<close>
theorem fuse_layouts_asserts:
  "(layout_1 \<noteq> [] \<and> layout_2 \<noteq> [] \<and>
      (length layout_1 \<noteq> length layout_2 \<or> (\<exists>i < length layout_2. \<not> layout_2 ! i < length layout_1))
    \<longrightarrow> (\<exists>msg. fuse_layouts layout_1 layout_2 = Inl (AssertFailure msg))) \<and>
   (valid_permutation layout_1 \<and> valid_permutation layout_2 \<and> length layout_1 = length layout_2
    \<longrightarrow> (\<exists>fused. fuse_layouts layout_1 layout_2 = Inr fused))"
proof (intro conjI impI)
  assume h: "layout_1 \<noteq> [] \<and> layout_2 \<noteq> [] \<and>
      (length layout_1 \<noteq> length layout_2 \<or> (\<exists>i < length layout_2. \<not> layout_2 ! i < length layout_1))"
  show "\<exists>msg. fuse_layouts layout_1 layout_2 = Inl (AssertFailure msg)"
  proof (cases "length layout_1 = length layout_2")
    case False
    with h show ?thesis by (simp add: fuse_layouts_def)
  next
    case True
    with h obtain j where "0 \<le> j" "j < length layout_1" "\<not> layout_2 ! j < length layout_1" by auto
    then have "\<exists>msg. fuse_layouts_loop layout_1 layout_2 0 (replicate (length layout_1) 0) = Inl (AssertFailure msg)"
      by (rule fuse_layouts_loop_fail)
    with h True show ?thesis by (simp add: fuse_layouts_def)
  qed
next
  assume "valid_permutation layout_1 \<and> valid_permutation layout_2 \<and> length layout_1 = length layout_2"
  then show "\<exists>fused. fuse_layouts layout_1 layout_2 = Inr fused"
    using fuse_layouts_permutations by blast
qed

theorem fuse_layouts_asserts_witness:
  "(\<exists>msg. fuse_layouts [1, 0, 2] [2, 0, 3] = Inl (AssertFailure msg)) \<and>
   (\<exists>msg. fuse_layouts [1, 0, 2] [1, 0] = Inl (AssertFailure msg)) \<and>
   valid_permutation [1, 0, 2] \<and> valid_permutation [2, 0, 1] \<and>
   (\<exists>fused. fuse_layouts [1, 0, 2] [2, 0, 1] = Inr fused)"
proof -
  have a: "valid_permutation [1, 0, 2]" by (simp add: valid_permutation_def)
  have b: "valid_permutation [2, 0, 1]" by (simp add: valid_permutation_def)
  have c: "\<exists>i < length [2, 0, 3::nat]. \<not> [2, 0, 3] ! i < length [1, 0, 2::nat]"
    by (rule exI[of _ 2]) simp
  have "\<exists>msg. fuse_layouts [1, 0, 2] [2, 0, 3] = Inl (AssertFailure msg)"
    using c fuse_layouts_asserts[of "[1, 0, 2]" "[2, 0, 3]"] by simp
  moreover have "\<exists>msg. fuse_layouts [1, 0, 2] [1, 0] = Inl (AssertFailure msg)"
    using fuse_layouts_asserts[of "[1, 0, 2]" "[1, 0]"] by simp
  moreover have "\<exists>fused. fuse_layouts [1, 0, 2] [2, 0, 1] = Inr fused"
    using a b fuse_layouts_asserts[of "[1, 0, 2]" "[2, 0, 1]"] by simp
  ultimately show ?thesis using a b by blast
qed

text \<open>
  Claim C10. \<open>is_supported_transpose_order\<close> reads the length and the last element
  only: every non-empty vector whose last element is its length minus one is accepted,
  \<open>[0, 0, 2]\<close> is accepted although it is not a permutation, and overwriting an element
  other than the last leaves the result as it was.
\<close>
theorem is_supported_transpose_order_last_only:
  "(v \<noteq> [] \<and> sint (last v) = int (length v) - 1 \<longrightarrow> is_supported_transpose_order v) \<and>
   (is_supported_transpose_order [0, 0, 2] \<and> \<not> valid_permutation_i32 [0, 0, 2]) \<and>
   (i < length v - 1 \<longrightarrow> is_supported_transpose_order (v[i := x]) = is_supported_transpose_order v)"
proof (intro conjI impI)
  assume h: "v \<noteq> [] \<and> sint (last v) = int (length v) - 1"
  have "sint (last v) < 2 ^ 31" using sint_lt[of "last v"] by simp
  with h have "int (length v) - 1 < 2 ^ 31" by simp
  with h show "is_supported_transpose_order v" by (simp add: is_supported_transpose_order_iff)
next
  show "is_supported_transpose_order [0, 0, 2]" by (simp add: is_supported_transpose_order_def)
next
  show "\<not> valid_permutation_i32 [0, 0, 2]" by (simp add: valid_permutation_i32_def)
next
  assume h: "i < length v - 1"
  then have ne: "v \<noteq> []" by auto
  have "last (v[i := x]) = last v" using h by (simp add: last_list_update[OF ne])
  with ne show "is_supported_transpose_order (v[i := x]) = is_supported_transpose_order v"
    by (simp add: is_supported_transpose_order_def)
qed

theorem is_supported_transpose_order_last_only_witness:
  "[7, 7, 2] \<noteq> ([] :: 32 word list) \<and> sint (last [7, 7, 2 :: 32 word]) = int (length [7, 7, 2 :: 32 word]) - 1 \<and>
   is_supported_transpose_order [7, 7, 2] \<and> (0::nat) < length [7, 7, 2 :: 32 word] - 1 \<and>
   is_supported_transpose_order ([7, 7, 2][0 := 5]) = is_supported_transpose_order [7, 7, 2]"
  using is_supported_transpose_order_last_only[of "[7, 7, 2]" 0 5] by simp

section \<open>Properties of the callback\<close>

subsection \<open>Reading a graph after an update\<close>

lemma bind_result_Inr_iff:
  "bind_result r f = Inr y \<longleftrightarrow> (\<exists>x. r = Inr x \<and> f x = Inr y)"
  by (cases r) (simp_all add: bind_result_def)

lemma bind_result_Inr [simp]: "bind_result (Inr x) f = f x"
  by (simp add: bind_result_def)

lemma bind_result_Inl [simp]: "bind_result (Inl e) f = Inl e"
  by (simp add: bind_result_def)

lemma nth_list_update_if: "n < length xs \<Longrightarrow> xs[b := y] ! n = (if n = b then y else xs ! n)"
  by (cases "n = b") simp_all

lemma frame_refl: "frame b g g"
  by (simp add: frame_def)

lemma frame_trans: "frame b g g1 \<Longrightarrow> frame b g1 g2 \<Longrightarrow> frame b g g2"
  by (simp add: frame_def)

lemma frame_set_argument: "frame b g (set_argument g b i v)"
  by (simp add: frame_def set_argument_def nth_list_update_if)

lemma frame_set_shape: "frame b g (set_shape g (InPort b i) s)"
  by (simp add: frame_def set_shape_def)

lemma frame_set_layout: "frame b g (set_layout g (InPort b i) l)"
  by (simp add: frame_def set_layout_def)

lemma frame_node_at_None: "frame b g g' \<Longrightarrow> node_at g' n = None \<longleftrightarrow> node_at g n = None"
  by (simp add: frame_def node_at_def)

lemma frame_as_transpose: "frame b g g' \<Longrightarrow> as_transpose g' n = as_transpose g n"
  by (simp add: frame_def as_transpose_def node_at_def)

lemma frame_as_brgemm: "frame b g g' \<Longrightarrow> as_brgemm g' n = as_brgemm g n"
  by (simp add: frame_def as_brgemm_def node_at_def)

lemma frame_as_constant: "frame b g g' \<Longrightarrow> as_constant g' n = as_constant g n"
  by (simp add: frame_def as_constant_def node_at_def)

lemma frame_get_partial_shape: "frame b g g' \<Longrightarrow> get_partial_shape g' v = get_partial_shape g v"
  by (simp add: frame_def get_partial_shape_def node_at_def)

lemma frame_get_input_size: "frame b g g' \<Longrightarrow> get_input_size g' n = get_input_size g n"
  by (simp add: frame_def get_input_size_def node_at_def)

lemma frame_input_value: "frame b g g' \<Longrightarrow> n \<noteq> b \<Longrightarrow> input_value g' n i = input_value g n i"
  by (simp add: frame_def input_value_def node_at_def)

lemma frame_get_input_node: "frame b g g' \<Longrightarrow> n \<noteq> b \<Longrightarrow>
    get_input_node_shared_ptr g' n i = get_input_node_shared_ptr g n i"
  by (simp add: get_input_node_shared_ptr_def frame_input_value)

lemma as_transpose_Some: "as_transpose g n = Some t \<Longrightarrow> t = n \<and> n < length (nodes g) \<and> node_op (nodes g ! n) = Transpose"
  by (simp add: as_transpose_def node_at_def split: if_splits)

lemma as_brgemm_Some: "as_brgemm g n = Some b \<Longrightarrow> b = n \<and> n < length (nodes g) \<and> node_op (nodes g ! n) = Brgemm"
  by (simp add: as_brgemm_def node_at_def split: if_splits)

lemma transpose_not_brgemm: "as_transpose g t = Some t' \<Longrightarrow> as_brgemm g b = Some b' \<Longrightarrow> t \<noteq> b"
  by (auto dest!: as_transpose_Some as_brgemm_Some)

lemma frame_is_supported_transpose:
  assumes "frame b g g'" "as_brgemm g b = Some b"
  shows "is_supported_transpose g' v = is_supported_transpose g v"
proof (cases "as_transpose g (fst v)")
  case None
  then show ?thesis using assms(1) by (simp add: is_supported_transpose_def frame_as_transpose)
next
  case (Some t)
  then have "t = fst v" and "t \<noteq> b"
    using as_transpose_Some[OF Some] transpose_not_brgemm[OF _ assms(2)] by auto
  then have "get_input_node_shared_ptr g' t 1 = get_input_node_shared_ptr g t 1"
    using assms(1) by (simp add: frame_get_input_node)
  then show ?thesis using Some assms(1)
    by (simp add: is_supported_transpose_def frame_as_transpose frame_as_constant cong: option.case_cong)
qed

text \<open>What a supported transpose looks like.\<close>

lemma is_supported_transpose_True:
  assumes "is_supported_transpose g v = Inr True"
  shows "\<exists>c d. as_transpose g (fst v) = Some (fst v) \<and> get_input_node_shared_ptr g (fst v) 1 = Inr c \<and>
           as_constant g c = Some d \<and> is_supported_transpose_order (cast_vector_i32 d)"
proof -
  obtain t where t: "as_transpose g (fst v) = Some t"
    using assms by (cases "as_transpose g (fst v)") (simp_all add: is_supported_transpose_def)
  then have tv: "t = fst v" using as_transpose_Some by blast
  obtain c where c: "get_input_node_shared_ptr g t 1 = Inr c"
    using assms t by (cases "get_input_node_shared_ptr g t 1") (simp_all add: is_supported_transpose_def)
  obtain d where d: "as_constant g c = Some d"
    using assms t c by (cases "as_constant g c") (simp_all add: is_supported_transpose_def)
  have "is_supported_transpose_order (cast_vector_i32 d)"
    using assms t c d by (simp add: is_supported_transpose_def)
  with t tv c d show ?thesis by blast
qed

subsection \<open>One iteration of the input loop\<close>

lemma bind_result_InrE:
  assumes "bind_result r f = Inr y"
  obtains x where "r = Inr x" "f x = Inr y"
  using assms by (cases r) (simp_all add: bind_result_def)


lemma nodes_set_shape [simp]: "nodes (set_shape g p s) = nodes g"
  by (simp add: set_shape_def)

lemma nodes_set_layout [simp]: "nodes (set_layout g p l) = nodes g"
  by (simp add: set_layout_def)

lemma descs_set_argument [simp]: "descs (set_argument g n i v) = descs g"
  by (simp add: set_argument_def)

lemma descs_set_shape_layout:
  "descs (set_layout (set_shape g p s) p l) q =
     (if q = p then (descs g p)\<lparr>shape := s, layout := l\<rparr> else descs g q)"
  by (simp add: set_layout_def set_shape_def)

lemma input_value_nodes: "nodes g' = nodes g \<Longrightarrow> input_value g' n i = input_value g n i"
  by (simp add: input_value_def node_at_def)

lemma input_value_set_argument_same:
  "b < length (nodes g) \<Longrightarrow> i < length (inputs (nodes g ! b)) \<Longrightarrow>
   input_value (set_argument g b i v) b i = Inr v"
  by (simp add: input_value_def node_at_def set_argument_def)

lemma input_value_set_argument_other:
  "j \<noteq> i \<Longrightarrow> input_value (set_argument g b i v) b j = input_value g b j"
  by (simp add: input_value_def node_at_def set_argument_def)

lemma input_value_Inr:
  "input_value g n i = Inr v \<longleftrightarrow>
     n < length (nodes g) \<and> i < length (inputs (nodes g ! n)) \<and> v = inputs (nodes g ! n) ! i"
  by (auto simp: input_value_def node_at_def)

lemma get_input_size_less:
  "i < get_input_size g n \<longleftrightarrow> n < length (nodes g) \<and> i < length (inputs (nodes g ! n))"
  by (simp add: get_input_size_def node_at_def)

lemma fuse_input_unsupported:
  assumes "input_value g b i = Inr v" "is_supported_transpose g v = Inr False"
  shows "fuse_input g b i = Inr g"
  using assms by (simp add: fuse_input_def)

text \<open>The graph that one iteration builds on a supported transpose, written out.\<close>

lemma fuse_input_supported:
  assumes v: "input_value g b i = Inr v" and sup: "is_supported_transpose g v = Inr True"
    and brg: "as_brgemm g b = Some b"
  shows "fuse_input g b i =
     bind_result (get_input_node_shared_ptr g (fst v) 1) (\<lambda>c.
       case as_constant g c of None \<Rightarrow> Inl NullPointer
       | Some d \<Rightarrow>
     bind_result (input_value g (fst v) 0) (\<lambda>src.
     bind_result (get_partial_shape g src) (\<lambda>ps.
     bind_result (fuse_layouts (cast_vector_size_t d) (layout (descs g (InPort b i)))) (\<lambda>l.
       Inr (set_layout (set_shape (set_argument g b i src) (InPort b i) (pshape_to_vdims ps))
              (InPort b i) l)))))"
proof -
  from is_supported_transpose_True[OF sup] have t: "as_transpose g (fst v) = Some (fst v)" by blast
  have ne: "fst v \<noteq> b" using transpose_not_brgemm[OF t brg] .
  have shape_eq: "get_input_partial_shape (set_argument g b i src) (fst v) 0 = get_partial_shape g src"
    if "input_value g (fst v) 0 = Inr src" for src
  proof -
    have fr: "frame b g (set_argument g b i src)" by (rule frame_set_argument)
    have "input_value (set_argument g b i src) (fst v) 0 = Inr src"
      using frame_input_value[OF fr ne] that by simp
    then show ?thesis
      by (simp add: get_input_partial_shape_def frame_get_partial_shape[OF fr])
  qed
  show ?thesis
  proof (cases "get_input_node_shared_ptr g (fst v) 1")
    case (Inl e)
    then show ?thesis using v sup by (simp add: fuse_input_def Let_def)
  next
    case (Inr c)
    show ?thesis
    proof (cases "as_constant g c")
      case None
      then show ?thesis using v sup Inr by (simp add: fuse_input_def Let_def)
    next
      case (Some d)
      show ?thesis
      proof (cases "input_value g (fst v) 0")
        case (Inl e)
        then show ?thesis using v sup Inr Some by (simp add: fuse_input_def Let_def)
      next
        case src: (Inr src)
        show ?thesis using v sup Inr Some src shape_eq[OF src]
          by (simp add: fuse_input_def Let_def get_layout_def get_port_descriptor_def)
      qed
    qed
  qed
qed




lemma fuse_input_supported_Inr:
  assumes step: "fuse_input g b i = Inr g'" and brg: "as_brgemm g b = Some b"
   and v: "input_value g b i = Inr v" and sup: "is_supported_transpose g v = Inr True"
  shows "\<exists>c d src ps l. get_input_node_shared_ptr g (fst v) 1 = Inr c \<and> as_constant g c = Some d \<and>
      input_value g (fst v) 0 = Inr src \<and> get_partial_shape g src = Inr ps \<and>
      fuse_layouts (cast_vector_size_t d) (layout (descs g (InPort b i))) = Inr l \<and>
      g' = set_layout (set_shape (set_argument g b i src) (InPort b i) (pshape_to_vdims ps))
              (InPort b i) l"
proof -
  note st = step[unfolded fuse_input_supported[OF v sup brg]]
  from st obtain c where c: "get_input_node_shared_ptr g (fst v) 1 = Inr c"
    and r1: "(case as_constant g c of None \<Rightarrow> Inl NullPointer
       | Some d \<Rightarrow>
     bind_result (input_value g (fst v) 0) (\<lambda>src.
     bind_result (get_partial_shape g src) (\<lambda>ps.
     bind_result (fuse_layouts (cast_vector_size_t d) (layout (descs g (InPort b i)))) (\<lambda>l.
       Inr (set_layout (set_shape (set_argument g b i src) (InPort b i) (pshape_to_vdims ps))
              (InPort b i) l))))) = Inr g'"
    by (rule bind_result_InrE)
  from r1 obtain d where d: "as_constant g c = Some d"
    and r2: "bind_result (input_value g (fst v) 0) (\<lambda>src.
     bind_result (get_partial_shape g src) (\<lambda>ps.
     bind_result (fuse_layouts (cast_vector_size_t d) (layout (descs g (InPort b i)))) (\<lambda>l.
       Inr (set_layout (set_shape (set_argument g b i src) (InPort b i) (pshape_to_vdims ps))
              (InPort b i) l)))) = Inr g'"
    by (cases "as_constant g c") simp_all
  from r2 obtain src where src: "input_value g (fst v) 0 = Inr src"
    and r3: "bind_result (get_partial_shape g src) (\<lambda>ps.
     bind_result (fuse_layouts (cast_vector_size_t d) (layout (descs g (InPort b i)))) (\<lambda>l.
       Inr (set_layout (set_shape (set_argument g b i src) (InPort b i) (pshape_to_vdims ps))
              (InPort b i) l))) = Inr g'"
    by (rule bind_result_InrE)
  from r3 obtain ps where ps: "get_partial_shape g src = Inr ps"
    and r4: "bind_result (fuse_layouts (cast_vector_size_t d) (layout (descs g (InPort b i)))) (\<lambda>l.
       Inr (set_layout (set_shape (set_argument g b i src) (InPort b i) (pshape_to_vdims ps))
              (InPort b i) l)) = Inr g'"
    by (rule bind_result_InrE)
  from r4 obtain l where l: "fuse_layouts (cast_vector_size_t d) (layout (descs g (InPort b i))) = Inr l"
    and g': "g' = set_layout (set_shape (set_argument g b i src) (InPort b i) (pshape_to_vdims ps))
              (InPort b i) l"
    by (rule bind_result_InrE) simp
  show ?thesis using c d src ps l g' by blast
qed



lemma fused_graph_frame:
  "frame b g (set_layout (set_shape (set_argument g b i src) (InPort b i) s) (InPort b i) l)"
proof -
  have "frame b g (set_argument g b i src)" by (rule frame_set_argument)
  then have "frame b g (set_shape (set_argument g b i src) (InPort b i) s)"
    by (rule frame_trans) (rule frame_set_shape)
  then show ?thesis by (rule frame_trans) (rule frame_set_layout)
qed

lemma input_value_set_shape [simp]: "input_value (set_shape g p s) n i = input_value g n i"
  by (rule input_value_nodes) simp

lemma input_value_set_layout [simp]: "input_value (set_layout g p l) n i = input_value g n i"
  by (rule input_value_nodes) simp

lemma fused_graph_other:
  "j \<noteq> i \<Longrightarrow>
   input_value (set_layout (set_shape (set_argument g b i src) (InPort b i) s) (InPort b i) l) b j
     = input_value g b j \<and>
   descs (set_layout (set_shape (set_argument g b i src) (InPort b i) s) (InPort b i) l) (InPort b j)
     = descs g (InPort b j)"
  by (simp add: descs_set_shape_layout input_value_set_argument_other)

lemma fused_graph_here:
  assumes "b < length (nodes g)" "i < length (inputs (nodes g ! b))"
  shows "input_value (set_layout (set_shape (set_argument g b i src) (InPort b i) s) (InPort b i) l) b i
     = Inr src"
  using input_value_set_argument_same[OF assms] by simp

lemma fused_graph_desc:
  "shape (descs (set_layout (set_shape (set_argument g b i src) (InPort b i) s) (InPort b i) l) (InPort b i)) = s"
  "layout (descs (set_layout (set_shape (set_argument g b i src) (InPort b i) s) (InPort b i) l) (InPort b i)) = l"
  by (simp_all add: descs_set_shape_layout)


lemma fuse_input_step:
  assumes step: "fuse_input g b i = Inr g'" and brg: "as_brgemm g b = Some b"
    and lt: "i < get_input_size g b"
  shows "frame b g g' \<and>
         (\<forall>j. j \<noteq> i \<longrightarrow> input_value g' b j = input_value g b j \<and>
                          descs g' (InPort b j) = descs g (InPort b j)) \<and>
         fused_at g g' b i"
proof -
  from lt have inb: "b < length (nodes g)" "i < length (inputs (nodes g ! b))"
    by (simp_all add: get_input_size_less)
  then obtain v where v: "input_value g b i = Inr v" by (simp add: input_value_Inr)
  from step v obtain s where s: "is_supported_transpose g v = Inr s"
    by (auto simp: fuse_input_def bind_result_Inr_iff)
  show ?thesis
  proof (cases s)
    case False
    with fuse_input_unsupported[OF v] s step have "g' = g" by simp
    then show ?thesis using v s False by (simp add: frame_refl fused_at_def)
  next
    case True
    with s have sup: "is_supported_transpose g v = Inr True" by simp
    from fuse_input_supported_Inr[OF step brg v sup]
    obtain c d src ps l where c: "get_input_node_shared_ptr g (fst v) 1 = Inr c"
      and d: "as_constant g c = Some d"
      and src: "input_value g (fst v) 0 = Inr src"
      and ps: "get_partial_shape g src = Inr ps"
      and l: "fuse_layouts (cast_vector_size_t d) (layout (descs g (InPort b i))) = Inr l"
      and g': "g' = set_layout (set_shape (set_argument g b i src) (InPort b i) (pshape_to_vdims ps))
              (InPort b i) l"
      by blast
    have fr: "frame b g g'" unfolding g' by (rule fused_graph_frame)
    have other: "\<forall>j. j \<noteq> i \<longrightarrow> input_value g' b j = input_value g b j \<and>
                          descs g' (InPort b j) = descs g (InPort b j)"
      unfolding g' using fused_graph_other by blast
    have here: "input_value g' b i = Inr src" unfolding g' using inb by (rule fused_graph_here)
    have sh: "shape (descs g' (InPort b i)) = pshape_to_vdims ps"
      and la: "layout (descs g' (InPort b i)) = l"
      unfolding g' by (rule fused_graph_desc)+
    have "fused_at g g' b i"
      unfolding fused_at_def
    proof (intro exI[of _ v] conjI)
      show "input_value g b i = Inr v" by (rule v)
      show "if is_supported_transpose g v = Inr True
        then \<exists>c d src ps l.
            get_input_node_shared_ptr g (fst v) 1 = Inr c \<and> as_constant g c = Some d \<and>
            input_value g (fst v) 0 = Inr src \<and> get_partial_shape g src = Inr ps \<and>
            fuse_layouts (cast_vector_size_t d) (layout (descs g (InPort b i))) = Inr l \<and>
            input_value g' b i = Inr src \<and>
            shape (descs g' (InPort b i)) = pshape_to_vdims ps \<and>
            layout (descs g' (InPort b i)) = l
        else input_value g' b i = Inr v \<and> descs g' (InPort b i) = descs g (InPort b i)"
        using sup c d src ps l here sh la by simp
    qed
    with fr other show ?thesis by blast
  qed
qed

subsection \<open>The input loop\<close>

lemma fused_at_kept:
  assumes "fused_at g g1 b j"
    and "input_value g' b j = input_value g1 b j" "descs g' (InPort b j) = descs g1 (InPort b j)"
  shows "fused_at g g' b j"
  using assms(1) unfolding fused_at_def assms(2,3) .

lemma fused_at_earlier:
  assumes fr: "frame b g g1" and brg: "as_brgemm g b = Some b"
    and same: "input_value g1 b j = input_value g b j" "descs g1 (InPort b j) = descs g (InPort b j)"
    and f: "fused_at g1 g' b j"
  shows "fused_at g g' b j"
proof -
  from f obtain v where v: "input_value g1 b j = Inr v"
    and r: "if is_supported_transpose g1 v = Inr True then
           (\<exists>c d src ps l.
              get_input_node_shared_ptr g1 (fst v) 1 = Inr c \<and> as_constant g1 c = Some d \<and>
              input_value g1 (fst v) 0 = Inr src \<and> get_partial_shape g1 src = Inr ps \<and>
              fuse_layouts (cast_vector_size_t d) (layout (descs g1 (InPort b j))) = Inr l \<and>
              input_value g' b j = Inr src \<and>
              shape (descs g' (InPort b j)) = pshape_to_vdims ps \<and>
              layout (descs g' (InPort b j)) = l)
         else input_value g' b j = Inr v \<and> descs g' (InPort b j) = descs g1 (InPort b j)"
    unfolding fused_at_def by blast
  have sup: "is_supported_transpose g1 v = is_supported_transpose g v"
    using fr brg by (rule frame_is_supported_transpose)
  show ?thesis
  proof (cases "is_supported_transpose g v = Inr True")
    case True
    from is_supported_transpose_True[OF True] have "as_transpose g (fst v) = Some (fst v)" by blast
    then have ne: "fst v \<noteq> b" using brg by (rule transpose_not_brgemm)
    have e1: "get_input_node_shared_ptr g1 (fst v) 1 = get_input_node_shared_ptr g (fst v) 1"
      using fr ne by (rule frame_get_input_node)
    have e2: "input_value g1 (fst v) 0 = input_value g (fst v) 0"
      using fr ne by (rule frame_input_value)
    from r True sup obtain c d src ps l where
      "get_input_node_shared_ptr g1 (fst v) 1 = Inr c" "as_constant g1 c = Some d"
      "input_value g1 (fst v) 0 = Inr src" "get_partial_shape g1 src = Inr ps"
      "fuse_layouts (cast_vector_size_t d) (layout (descs g1 (InPort b j))) = Inr l"
      "input_value g' b j = Inr src"
      "shape (descs g' (InPort b j)) = pshape_to_vdims ps"
      "layout (descs g' (InPort b j)) = l"
      by auto
    then have "get_input_node_shared_ptr g (fst v) 1 = Inr c \<and> as_constant g c = Some d \<and>
              input_value g (fst v) 0 = Inr src \<and> get_partial_shape g src = Inr ps \<and>
              fuse_layouts (cast_vector_size_t d) (layout (descs g (InPort b j))) = Inr l \<and>
              input_value g' b j = Inr src \<and>
              shape (descs g' (InPort b j)) = pshape_to_vdims ps \<and>
              layout (descs g' (InPort b j)) = l"
      using e1 e2 same(2) frame_as_constant[OF fr] frame_get_partial_shape[OF fr] by simp
    then show ?thesis unfolding fused_at_def using v same(1) True by auto
  next
    case False
    with r sup have "input_value g' b j = Inr v \<and> descs g' (InPort b j) = descs g1 (InPort b j)"
      by simp
    then show ?thesis unfolding fused_at_def using v same False by auto
  qed
qed

lemma input_loop_post:
  "input_loop g b i = Inr g' \<Longrightarrow> as_brgemm g b = Some b \<Longrightarrow>
   frame b g g' \<and>
   (\<forall>j. j < i \<or> get_input_size g b \<le> j \<longrightarrow>
        input_value g' b j = input_value g b j \<and> descs g' (InPort b j) = descs g (InPort b j)) \<and>
   (\<forall>j. i \<le> j \<and> j < get_input_size g b \<longrightarrow> fused_at g g' b j)"
proof (induction g b i rule: input_loop.induct)
  case (1 g b i)
  show ?case
  proof (cases "i < get_input_size g b")
    case False
    with "1.prems"(1) have "g' = g" by (simp add: input_loop.simps[of g b i])
    with False show ?thesis by (auto simp: frame_refl)
  next
    case True
    with "1.prems"(1) obtain g1 where g1: "fuse_input g b i = Inr g1"
      and rest: "input_loop g1 b (Suc i) = Inr g'"
      by (cases "fuse_input g b i") (simp_all add: input_loop.simps[of g b i])
    from fuse_input_step[OF g1 "1.prems"(2) True]
    have fr1: "frame b g g1"
      and other1: "\<And>j. j \<noteq> i \<Longrightarrow> input_value g1 b j = input_value g b j \<and>
                          descs g1 (InPort b j) = descs g (InPort b j)"
      and here1: "fused_at g g1 b i" by blast+
    have brg1: "as_brgemm g1 b = Some b" using frame_as_brgemm[OF fr1] "1.prems"(2) by simp
    have sz: "get_input_size g1 b = get_input_size g b" using fr1 by (rule frame_get_input_size)
    from "1.IH"[OF True g1 rest brg1]
    have fr2: "frame b g1 g'"
      and other2: "\<And>j. j < Suc i \<or> get_input_size g b \<le> j \<Longrightarrow>
        input_value g' b j = input_value g1 b j \<and> descs g' (InPort b j) = descs g1 (InPort b j)"
      and later2: "\<And>j. Suc i \<le> j \<Longrightarrow> j < get_input_size g b \<Longrightarrow> fused_at g1 g' b j"
      unfolding sz by blast+
    have "frame b g g'" using fr1 fr2 by (rule frame_trans)
    moreover have "input_value g' b j = input_value g b j \<and> descs g' (InPort b j) = descs g (InPort b j)"
      if "j < i \<or> get_input_size g b \<le> j" for j
    proof -
      from that True have "j \<noteq> i" "j < Suc i \<or> get_input_size g b \<le> j" by auto
      with other1[of j] other2[of j] show ?thesis by simp
    qed
    moreover have "fused_at g g' b j" if "i \<le> j \<and> j < get_input_size g b" for j
    proof (cases "j = i")
      case True
      with here1 other2[of i] show ?thesis by (simp add: fused_at_kept)
    next
      case False
      with that have "Suc i \<le> j" "j < get_input_size g b" by auto
      then have "fused_at g1 g' b j" by (rule later2)
      with fr1 "1.prems"(2) other1[OF False] show ?thesis by (simp add: fused_at_earlier)
    qed
    ultimately show ?thesis by blast
  qed
qed

subsection \<open>Redirecting the consumers of an output\<close>

lemma fold_replace_source_output:
  "descs (fold (\<lambda>inp h. replace_source_output h inp new) ins g) = descs g \<and>
   length (nodes (fold (\<lambda>inp h. replace_source_output h inp new) ins g)) = length (nodes g) \<and>
   (\<forall>n < length (nodes g).
      node_op (nodes (fold (\<lambda>inp h. replace_source_output h inp new) ins g) ! n) = node_op (nodes g ! n) \<and>
      out_shapes (nodes (fold (\<lambda>inp h. replace_source_output h inp new) ins g) ! n) = out_shapes (nodes g ! n) \<and>
      length (inputs (nodes (fold (\<lambda>inp h. replace_source_output h inp new) ins g) ! n)) =
        length (inputs (nodes g ! n)) \<and>
      (\<forall>k < length (inputs (nodes g ! n)).
         inputs (nodes (fold (\<lambda>inp h. replace_source_output h inp new) ins g) ! n) ! k =
           (if (n, k) \<in> set ins then new else inputs (nodes g ! n) ! k)))"
proof (induction ins arbitrary: g)
  case Nil
  show ?case by simp
next
  case (Cons inp ins)
  define h where "h = replace_source_output g inp new"
  have h: "descs h = descs g" "length (nodes h) = length (nodes g)"
    "\<And>n. n < length (nodes g) \<Longrightarrow> node_op (nodes h ! n) = node_op (nodes g ! n)"
    "\<And>n. n < length (nodes g) \<Longrightarrow> out_shapes (nodes h ! n) = out_shapes (nodes g ! n)"
    "\<And>n. n < length (nodes g) \<Longrightarrow> length (inputs (nodes h ! n)) = length (inputs (nodes g ! n))"
    "\<And>n k. n < length (nodes g) \<Longrightarrow> k < length (inputs (nodes g ! n)) \<Longrightarrow>
        inputs (nodes h ! n) ! k = (if (n, k) = inp then new else inputs (nodes g ! n) ! k)"
    unfolding h_def replace_source_output_def set_argument_def
    by (cases inp; auto simp: nth_list_update_if nth_list_update; fail)+
  have f: "fold (\<lambda>inp h. replace_source_output h inp new) (inp # ins) g =
           fold (\<lambda>inp h. replace_source_output h inp new) ins h"
    by (simp add: h_def)
  show ?case unfolding f using Cons.IH[of h] h by auto
qed

lemma set_get_target_inputs:
  "(n, k) \<in> set (get_target_inputs g v) \<longleftrightarrow>
     n < length (nodes g) \<and> k < length (inputs (nodes g ! n)) \<and> inputs (nodes g ! n) ! k = v"
  by (auto simp: get_target_inputs_def)

lemma get_target_inputs_Nil:
  "get_target_inputs g v = [] \<longleftrightarrow>
     (\<forall>n < length (nodes g). \<forall>k < length (inputs (nodes g ! n)). inputs (nodes g ! n) ! k \<noteq> v)"
proof -
  have "get_target_inputs g v = [] \<longleftrightarrow> (\<forall>n k. (n, k) \<notin> set (get_target_inputs g v))"
  proof (cases "get_target_inputs g v")
    case Nil
    then show ?thesis by simp
  next
    case (Cons p ps)
    obtain n k where "p = (n, k)" by (cases p)
    with Cons have "(n, k) \<in> set (get_target_inputs g v)" by simp
    then have "\<not> (\<forall>n k. (n, k) \<notin> set (get_target_inputs g v))" by blast
    moreover have "get_target_inputs g v \<noteq> []" using Cons by simp
    ultimately show ?thesis by simp
  qed
  then show ?thesis by (auto simp: set_get_target_inputs)
qed

lemma rewired_fold:
  assumes "nodes g1 = nodes g"
  shows "rewired old new g (fold (\<lambda>inp h. replace_source_output h inp new) (get_target_inputs g1 old) g1)"
proof -
  have t: "get_target_inputs g1 old = get_target_inputs g old"
    using assms by (simp add: get_target_inputs_def)
  show ?thesis
    unfolding rewired_def t
    using fold_replace_source_output[of new "get_target_inputs g old" g1] assms
    by (simp add: set_get_target_inputs)
qed

subsection \<open>The output branch and the revalidation\<close>

lemma as_constant_nodes: "nodes g' = nodes g \<Longrightarrow> as_constant g' n = as_constant g n"
  by (simp add: as_constant_def node_at_def)

lemma output_fusion_Inr:
  assumes "output_fusion g root = Inr (g2, b)"
  shows "\<exists>n1 ps d l.
     get_input_node_shared_ptr g root 0 = Inr b \<and> as_brgemm g b = Some b \<and>
     get_input_node_shared_ptr g root 1 = Inr n1 \<and> as_constant g n1 = Some d \<and>
     get_partial_shape g (root, 0) = Inr ps \<and>
     fuse_layouts (layout (descs g (OutPort b 0))) (cast_vector_size_t d) = Inr l \<and>
     g2 = fold (\<lambda>inp h. replace_source_output h inp (b, 0))
            (get_target_inputs (set_layout (set_shape g (OutPort b 0) (pshape_to_vdims ps)) (OutPort b 0) l) (root, 0))
            (set_layout (set_shape g (OutPort b 0) (pshape_to_vdims ps)) (OutPort b 0) l)"
proof -
  from assms obtain n0 where n0: "get_input_node_shared_ptr g root 0 = Inr n0"
    by (auto simp: output_fusion_def bind_result_Inr_iff)
  from assms n0 obtain b0 where b0: "as_brgemm g n0 = Some b0"
    by (cases "as_brgemm g n0") (simp_all add: output_fusion_def)
  then have b0n0: "b0 = n0" by (simp add: as_brgemm_Some)
  from assms n0 b0 obtain n1 where n1: "get_input_node_shared_ptr g root 1 = Inr n1"
    by (cases "get_input_node_shared_ptr g root 1") (simp_all add: output_fusion_def Let_def)
  from assms n0 b0 n1 obtain ps where ps: "get_partial_shape g (root, 0) = Inr ps"
    by (cases "get_partial_shape g (root, 0)") (simp_all add: output_fusion_def Let_def)
  have c: "as_constant (set_shape g (OutPort b0 0) (pshape_to_vdims ps)) n1 = as_constant g n1"
    by (rule as_constant_nodes) simp
  have la: "get_layout (set_shape g (OutPort b0 0) (pshape_to_vdims ps)) (OutPort b0 0) =
            layout (descs g (OutPort b0 0))"
    by (simp add: get_layout_def get_port_descriptor_def set_shape_def)
  from assms n0 b0 n1 ps c obtain d where d: "as_constant g n1 = Some d"
    by (cases "as_constant g n1") (simp_all add: output_fusion_def Let_def)
  from assms n0 b0 n1 ps c d la obtain l
    where l: "fuse_layouts (layout (descs g (OutPort b0 0))) (cast_vector_size_t d) = Inr l"
    by (cases "fuse_layouts (layout (descs g (OutPort b0 0))) (cast_vector_size_t d)")
       (simp_all add: output_fusion_def Let_def)
  from assms n0 b0 n1 ps c d la l
  have "b = b0" and "g2 = fold (\<lambda>inp h. replace_source_output h inp (b0, 0))
            (get_target_inputs (set_layout (set_shape g (OutPort b0 0) (pshape_to_vdims ps)) (OutPort b0 0) l) (root, 0))
            (set_layout (set_shape g (OutPort b0 0) (pshape_to_vdims ps)) (OutPort b0 0) l)"
    by (auto simp: output_fusion_def Let_def)
  with n0 b0 b0n0 n1 ps d l show ?thesis by auto
qed

lemma validate_and_infer_types_Inr:
  assumes "validate_and_infer_types infer g n = Inr g'"
  shows "descs g' = descs g \<and> length (nodes g') = length (nodes g) \<and>
         (\<forall>m < length (nodes g). inputs (nodes g' ! m) = inputs (nodes g ! m) \<and>
                                  node_op (nodes g' ! m) = node_op (nodes g ! m))"
  using assms
  by (auto simp: validate_and_infer_types_def bind_result_Inr_iff nth_list_update_if)

lemma validate_input_value:
  assumes "validate_and_infer_types infer g n = Inr g'"
  shows "input_value g' m k = input_value g m k"
  using validate_and_infer_types_Inr[OF assms] by (simp add: input_value_def node_at_def)

lemma validate_get_target_inputs:
  assumes "validate_and_infer_types infer g n = Inr g'"
  shows "get_target_inputs g' v = get_target_inputs g v"
proof -
  note v = validate_and_infer_types_Inr[OF assms]
  have len: "length (nodes g') = length (nodes g)" using v by simp
  have eq: "map (\<lambda>n. map (\<lambda>k. (n, k))
                (filter (\<lambda>k. inputs (nodes g' ! n) ! k = v) [0..<length (inputs (nodes g' ! n))]))
          [0..<length (nodes g)] =
        map (\<lambda>n. map (\<lambda>k. (n, k))
                (filter (\<lambda>k. inputs (nodes g ! n) ! k = v) [0..<length (inputs (nodes g ! n))]))
          [0..<length (nodes g)]"
    by (rule map_cong[OF refl]) (simp add: v)
  show ?thesis unfolding get_target_inputs_def len eq by (rule refl)
qed

lemma callback_brgemm_Inr:
  assumes "callback infer g b = Inr (g', changed)" "as_brgemm g b = Some b"
  shows "\<exists>g2. input_loop g b 0 = Inr g2 \<and> validate_and_infer_types infer g2 b = Inr g' \<and> changed"
  using assms by (auto simp: callback_def bind_result_Inr_iff)

lemma callback_transpose_Inr:
  assumes "callback infer g root = Inr (g', changed)" "as_brgemm g root = None"
  shows "\<exists>g1 b g2. output_fusion g root = Inr (g1, b) \<and> input_loop g1 b 0 = Inr g2 \<and>
           validate_and_infer_types infer g2 b = Inr g' \<and> changed"
  using assms by (auto simp: callback_def bind_result_Inr_iff)

lemma rewired_as_brgemm: "rewired old new g g' \<Longrightarrow> as_brgemm g' n = as_brgemm g n"
  by (simp add: rewired_def as_brgemm_def node_at_def)

lemma rewired_as_transpose: "rewired old new g g' \<Longrightarrow> as_transpose g' n = as_transpose g n"
  by (simp add: rewired_def as_transpose_def node_at_def)

lemma rewired_input_value:
  "rewired old new g g' \<Longrightarrow>
   input_value g' n k = (case input_value g n k of
                           Inl e \<Rightarrow> Inl e
                         | Inr s \<Rightarrow> Inr (if s = old then new else s))"
  by (simp add: rewired_def input_value_def node_at_def)

lemma rewired_no_old:
  assumes "rewired old new g g'" "new \<noteq> old" "input_value g' n k = Inr s"
  shows "s \<noteq> old"
  using assms(2,3) unfolding rewired_input_value[OF assms(1)]
  by (cases "input_value g n k") (auto split: if_splits)

lemma is_supported_transpose_brgemm:
  "as_brgemm g b = Some b \<Longrightarrow> is_supported_transpose g (b, k) = Inr False"
  by (auto simp: is_supported_transpose_def as_transpose_def as_brgemm_def node_at_def
      split: if_splits)

lemma as_brgemm_transpose: "as_transpose g n = Some t \<Longrightarrow> as_brgemm g n = None"
  by (auto simp: as_transpose_def as_brgemm_def node_at_def split: if_splits)

text \<open>The graph after a callback on a Transpose root, relative to the graph before.\<close>

lemma callback_transpose_post:
  assumes cb: "callback infer g root = Inr (g', changed)" and rt1: "as_transpose g root = Some root"
  shows "\<exists>b c d ps l.
     get_input_node_shared_ptr g root 0 = Inr b \<and> as_brgemm g b = Some b \<and>
     get_input_node_shared_ptr g root 1 = Inr c \<and> as_constant g c = Some d \<and>
     get_partial_shape g (root, 0) = Inr ps \<and>
     fuse_layouts (layout (descs g (OutPort b 0))) (cast_vector_size_t d) = Inr l \<and>
     shape (descs g' (OutPort b 0)) = pshape_to_vdims ps \<and>
     layout (descs g' (OutPort b 0)) = l \<and>
     (\<forall>inp \<in> set (get_target_inputs g (root, 0)). input_value g' (fst inp) (snd inp) = Inr (b, 0)) \<and>
     get_target_inputs g' (root, 0) = []"
proof -
  note rt = rt1 as_brgemm_transpose[OF rt1]
  from callback_transpose_Inr[OF cb rt(2)] obtain g1 b g2
    where of: "output_fusion g root = Inr (g1, b)" and lp: "input_loop g1 b 0 = Inr g2"
      and va: "validate_and_infer_types infer g2 b = Inr g'" by blast
  from output_fusion_Inr[OF of] obtain c ps d l
    where b0: "get_input_node_shared_ptr g root 0 = Inr b" and brg: "as_brgemm g b = Some b"
      and c: "get_input_node_shared_ptr g root 1 = Inr c" and d: "as_constant g c = Some d"
      and ps: "get_partial_shape g (root, 0) = Inr ps"
      and l: "fuse_layouts (layout (descs g (OutPort b 0))) (cast_vector_size_t d) = Inr l"
      and g1: "g1 = fold (\<lambda>inp h. replace_source_output h inp (b, 0))
            (get_target_inputs (set_layout (set_shape g (OutPort b 0) (pshape_to_vdims ps)) (OutPort b 0) l) (root, 0))
            (set_layout (set_shape g (OutPort b 0) (pshape_to_vdims ps)) (OutPort b 0) l)"
    by blast
  define gd where "gd = set_layout (set_shape g (OutPort b 0) (pshape_to_vdims ps)) (OutPort b 0) l"
  have ngd: "nodes gd = nodes g" by (simp add: gd_def)
  have rw: "rewired (root, 0) (b, 0) g g1"
    unfolding g1 gd_def[symmetric] using ngd by (rule rewired_fold)
  have d1: "descs g1 = descs gd"
    unfolding g1 gd_def[symmetric]
    by (rule fold_replace_source_output[of "(b, 0)" "get_target_inputs gd (root, 0)" gd, THEN conjunct1])
  have ne: "b \<noteq> root" using transpose_not_brgemm[OF rt(1) brg] by simp
  have brg1: "as_brgemm g1 b = Some b" using rewired_as_brgemm[OF rw] brg by simp
  note post = input_loop_post[OF lp brg1]
  have fr: "frame b g1 g2" using post by (rule conjunct1)
  have fu: "fused_at g1 g2 b j" if "j < get_input_size g1 b" for j
    using post[THEN conjunct2, THEN conjunct2] that by simp
  note v = validate_and_infer_types_Inr[OF va]
  have desc: "descs g' (OutPort b 0) = descs gd (OutPort b 0)"
    using v fr d1 by (simp add: frame_def)
  have sh: "shape (descs g' (OutPort b 0)) = pshape_to_vdims ps"
    and la: "layout (descs g' (OutPort b 0)) = l"
    unfolding desc gd_def by (simp_all add: descs_set_shape_layout)
  txt \<open>Input \<open>k\<close> of the Brgemm itself after the loop.\<close>
  have own: "\<exists>s. input_value g2 b k = Inr s \<and> s \<noteq> (root, 0) \<and>
                 (input_value g1 b k = Inr (b, 0) \<longrightarrow> s = (b, 0))"
    if k: "k < get_input_size g1 b" for k
  proof -
    from fu[OF k] obtain v where v1: "input_value g1 b k = Inr v"
      and r: "if is_supported_transpose g1 v = Inr True then
           (\<exists>c d src ps l.
              get_input_node_shared_ptr g1 (fst v) 1 = Inr c \<and> as_constant g1 c = Some d \<and>
              input_value g1 (fst v) 0 = Inr src \<and> get_partial_shape g1 src = Inr ps \<and>
              fuse_layouts (cast_vector_size_t d) (layout (descs g1 (InPort b k))) = Inr l \<and>
              input_value g2 b k = Inr src \<and>
              shape (descs g2 (InPort b k)) = pshape_to_vdims ps \<and>
              layout (descs g2 (InPort b k)) = l)
         else input_value g2 b k = Inr v \<and> descs g2 (InPort b k) = descs g1 (InPort b k)"
      unfolding fused_at_def by blast
    have bo: "(b, 0) \<noteq> (root, 0)" using ne by simp
    show ?thesis
    proof (cases "is_supported_transpose g1 v = Inr True")
      case True
      with r obtain src where s1: "input_value g1 (fst v) 0 = Inr src"
        and s2: "input_value g2 b k = Inr src" by auto
      have "src \<noteq> (root, 0)" using rw bo s1 by (rule rewired_no_old)
      moreover have "v \<noteq> (b, 0)" using True is_supported_transpose_brgemm[OF brg1, of 0] by auto
      ultimately show ?thesis using s2 v1 by simp
    next
      case False
      with r have "input_value g2 b k = Inr v" by simp
      moreover have "v \<noteq> (root, 0)" using rw bo v1 by (rule rewired_no_old)
      ultimately show ?thesis using v1 by simp
    qed
  qed
  have iv': "input_value g' n k = input_value g2 n k" for n k
    using va by (rule validate_input_value)
  have cons: "input_value g' n k = Inr (b, 0)" if "(n, k) \<in> set (get_target_inputs g (root, 0))" for n k
  proof -
    from that have "input_value g n k = Inr (root, 0)"
      by (simp add: set_get_target_inputs input_value_Inr)
    then have i1: "input_value g1 n k = Inr (b, 0)" by (simp add: rewired_input_value[OF rw])
    show ?thesis
    proof (cases "n = b")
      case True
      from i1 True have "k < get_input_size g1 b" by (simp add: get_input_size_less input_value_Inr)
      from own[OF this] i1 True show ?thesis by (auto simp: iv')
    next
      case False
      with fr i1 show ?thesis by (simp add: iv' frame_input_value)
    qed
  qed
  have nocons: "get_target_inputs g' (root, 0) = []"
  proof -
    have bo: "(b, 0) \<noteq> (root, 0)" using ne by simp
    have no: "inputs (nodes g2 ! n) ! k \<noteq> (root, 0)"
      if n: "n < length (nodes g2)" and k: "k < length (inputs (nodes g2 ! n))" for n k
    proof -
      have i2: "input_value g2 n k = Inr (inputs (nodes g2 ! n) ! k)"
        using n k by (simp add: input_value_Inr)
      show ?thesis
      proof (cases "n = b")
        case True
        have "k < get_input_size g2 b" using n k True by (simp add: get_input_size_less)
        then have "k < get_input_size g1 b" by (simp only: frame_get_input_size[OF fr])
        from own[OF this] obtain s where "input_value g2 b k = Inr s" "s \<noteq> (root, 0)" by blast
        with i2 True show ?thesis by simp
      next
        case False
        have "input_value g1 n k = Inr (inputs (nodes g2 ! n) ! k)"
          using i2 frame_input_value[OF fr False, of k] by simp
        with rw bo show ?thesis by (rule rewired_no_old)
      qed
    qed
    have "get_target_inputs g2 (root, 0) = []"
      unfolding get_target_inputs_Nil using no by blast
    then show ?thesis by (simp only: validate_get_target_inputs[OF va])
  qed
  have consB: "\<forall>inp \<in> set (get_target_inputs g (root, 0)). input_value g' (fst inp) (snd inp) = Inr (b, 0)"
  proof
    fix inp assume "inp \<in> set (get_target_inputs g (root, 0))"
    then have "(fst inp, snd inp) \<in> set (get_target_inputs g (root, 0))" by simp
    then show "input_value g' (fst inp) (snd inp) = Inr (b, 0)" by (rule cons)
  qed
  show ?thesis
    apply (rule exI[of _ b], rule exI[of _ c], rule exI[of _ d], rule exI[of _ ps], rule exI[of _ l])
    apply (intro conjI)
    apply (rule b0 brg c d ps l sh la consB nocons)+
    done
qed

lemma callback_brgemm_post:
  assumes cb: "callback infer g brgemm = Inr (g', changed)"
    and brg: "as_brgemm g brgemm = Some brgemm"
    and v: "input_value g brgemm i = Inr v"
    and sup: "is_supported_transpose g v = Inr True"
  shows "\<exists>c d src ps l.
     get_input_node_shared_ptr g (fst v) 1 = Inr c \<and> as_constant g c = Some d \<and>
     input_value g (fst v) 0 = Inr src \<and> get_partial_shape g src = Inr ps \<and>
     fuse_layouts (cast_vector_size_t d) (layout (descs g (InPort brgemm i))) = Inr l \<and>
     input_value g' brgemm i = Inr src \<and>
     shape (descs g' (InPort brgemm i)) = pshape_to_vdims ps \<and>
     layout (descs g' (InPort brgemm i)) = l"
proof -
  from callback_brgemm_Inr[OF cb brg] obtain g2
    where lp: "input_loop g brgemm 0 = Inr g2"
      and va: "validate_and_infer_types infer g2 brgemm = Inr g'" by blast
  have lt: "i < get_input_size g brgemm" using v by (simp add: get_input_size_less input_value_Inr)
  have "fused_at g g2 brgemm i"
    using input_loop_post[OF lp brg, THEN conjunct2, THEN conjunct2] lt by simp
  with v sup obtain c d src ps l where
    f: "get_input_node_shared_ptr g (fst v) 1 = Inr c" "as_constant g c = Some d"
      "input_value g (fst v) 0 = Inr src" "get_partial_shape g src = Inr ps"
      "fuse_layouts (cast_vector_size_t d) (layout (descs g (InPort brgemm i))) = Inr l"
    and r: "input_value g2 brgemm i = Inr src"
      "shape (descs g2 (InPort brgemm i)) = pshape_to_vdims ps"
      "layout (descs g2 (InPort brgemm i)) = l"
    unfolding fused_at_def by auto
  have d': "descs g' = descs g2" using validate_and_infer_types_Inr[OF va] by simp
  have r': "input_value g' brgemm i = Inr src"
      "shape (descs g' (InPort brgemm i)) = pshape_to_vdims ps"
      "layout (descs g' (InPort brgemm i)) = l"
    using r by (simp_all add: d' validate_input_value[OF va])
  show ?thesis
    apply (rule exI[of _ c], rule exI[of _ d], rule exI[of _ src], rule exI[of _ ps], rule exI[of _ l])
    apply (intro conjI)
    apply (rule f r')+
    done
qed

subsection \<open>Well-formed graphs: the callback does not fail on a missing port\<close>

lemma wf_graph_iff:
  "wf_graph g \<longleftrightarrow>
     (\<forall>n < length (nodes g).
        (\<forall>k < length (inputs (nodes g ! n)).
           fst (inputs (nodes g ! n) ! k) < length (nodes g) \<and>
           snd (inputs (nodes g ! n) ! k) < length (out_shapes (nodes g ! fst (inputs (nodes g ! n) ! k)))) \<and>
        (node_op (nodes g ! n) = Transpose \<longrightarrow> length (inputs (nodes g ! n)) = 2))"
  by (auto simp: wf_graph_def list_all_length node_at_def split: option.splits if_splits)

lemma wf_graph_source:
  assumes "wf_graph g" "input_value g n k = Inr s"
  shows "\<exists>ps. get_partial_shape g s = Inr ps"
proof -
  from assms(2) have "n < length (nodes g)" "k < length (inputs (nodes g ! n))"
    "s = inputs (nodes g ! n) ! k" by (simp_all add: input_value_Inr)
  with assms(1) have "fst s < length (nodes g) \<and> snd s < length (out_shapes (nodes g ! fst s))"
    by (simp add: wf_graph_iff)
  then show ?thesis by (simp add: get_partial_shape_def node_at_def)
qed

lemma wf_graph_transpose:
  assumes "wf_graph g" "as_transpose g t = Some t'"
  shows "\<exists>a c. input_value g t 0 = Inr a \<and> input_value g t 1 = Inr c"
proof -
  from as_transpose_Some[OF assms(2)] have "t < length (nodes g)" "node_op (nodes g ! t) = Transpose"
    by simp_all
  with assms(1) have "length (inputs (nodes g ! t)) = 2" by (simp add: wf_graph_iff)
  with \<open>t < length (nodes g)\<close> show ?thesis by (simp add: input_value_def node_at_def)
qed

lemma is_supported_transpose_wf:
  assumes "wf_graph g"
  shows "\<exists>r. is_supported_transpose g v = Inr r"
proof (cases "as_transpose g (fst v)")
  case None
  then have "is_supported_transpose g v = Inr False" by (simp add: is_supported_transpose_def)
  then show ?thesis by blast
next
  case (Some t)
  then have t: "t = fst v" by (simp add: as_transpose_Some)
  from wf_graph_transpose[OF assms Some] obtain c where c: "input_value g (fst v) 1 = Inr c" by blast
  show ?thesis
  proof (cases "as_constant g (fst c)")
    case None
    with Some t c have "is_supported_transpose g v = Inr False"
      by (simp add: is_supported_transpose_def get_input_node_shared_ptr_def)
    then show ?thesis by blast
  next
    case (Some d)
    with \<open>as_transpose g (fst v) = Some t\<close> t c
    have "is_supported_transpose g v = Inr (is_supported_transpose_order (cast_vector_i32 d))"
      by (simp add: is_supported_transpose_def get_input_node_shared_ptr_def)
    then show ?thesis by blast
  qed
qed

lemma fuse_input_succeeds:
  assumes wf: "wf_graph g" and brg: "as_brgemm g b = Some b" and lt: "i < get_input_size g b"
    and ok: "\<And>v c d. input_value g b i = Inr v \<Longrightarrow> is_supported_transpose g v = Inr True \<Longrightarrow>
              get_input_node_shared_ptr g (fst v) 1 = Inr c \<Longrightarrow> as_constant g c = Some d \<Longrightarrow>
              \<exists>l. fuse_layouts (cast_vector_size_t d) (layout (descs g (InPort b i))) = Inr l"
  shows "\<exists>g'. fuse_input g b i = Inr g'"
proof -
  from lt obtain v where v: "input_value g b i = Inr v"
    by (auto simp: get_input_size_less input_value_Inr)
  from is_supported_transpose_wf[OF wf] obtain r where r: "is_supported_transpose g v = Inr r"
    by blast
  show ?thesis
  proof (cases r)
    case False
    with fuse_input_unsupported[OF v] r show ?thesis by simp
  next
    case True
    with r have sup: "is_supported_transpose g v = Inr True" by simp
    from is_supported_transpose_True[OF sup] obtain c d
      where t: "as_transpose g (fst v) = Some (fst v)"
        and c: "get_input_node_shared_ptr g (fst v) 1 = Inr c" and d: "as_constant g c = Some d"
      by blast
    from wf_graph_transpose[OF wf t] obtain src where src: "input_value g (fst v) 0 = Inr src"
      by blast
    from wf_graph_source[OF wf src] obtain ps where ps: "get_partial_shape g src = Inr ps" by blast
    from ok[OF v sup c d] obtain l
      where l: "fuse_layouts (cast_vector_size_t d) (layout (descs g (InPort b i))) = Inr l" by blast
    show ?thesis unfolding fuse_input_supported[OF v sup brg] using c d src ps l by simp
  qed
qed

lemma wf_graph_step:
  assumes wf: "wf_graph g" and fr: "frame b g g1" and brg: "as_brgemm g b = Some b"
    and other: "\<And>j. j \<noteq> i \<Longrightarrow> input_value g1 b j = input_value g b j"
    and here: "fused_at g g1 b i"
  shows "wf_graph g1"
  unfolding wf_graph_iff
proof (intro allI impI conjI)
  fix n k assume n: "n < length (nodes g1)" and k: "k < length (inputs (nodes g1 ! n))"
  from fr have len: "length (nodes g1) = length (nodes g)" by (simp add: frame_def)
  have os: "out_shapes (nodes g1 ! m) = out_shapes (nodes g ! m)" if "m < length (nodes g)" for m
    using fr that by (simp add: frame_def)
  have iv1: "input_value g1 n k = Inr (inputs (nodes g1 ! n) ! k)"
    using n k by (simp add: input_value_Inr)
  have "\<exists>m j. input_value g m j = Inr (inputs (nodes g1 ! n) ! k)"
  proof (cases "n = b")
    case False
    then show ?thesis using iv1 frame_input_value[OF fr False, of k] by metis
  next
    case nb: True
    show ?thesis
    proof (cases "k = i")
      case False
      then show ?thesis using iv1 other[OF False] nb by metis
    next
      case True
      from here obtain v where v: "input_value g b i = Inr v"
        and r: "if is_supported_transpose g v = Inr True then
           (\<exists>c d src ps l.
              get_input_node_shared_ptr g (fst v) 1 = Inr c \<and> as_constant g c = Some d \<and>
              input_value g (fst v) 0 = Inr src \<and> get_partial_shape g src = Inr ps \<and>
              fuse_layouts (cast_vector_size_t d) (layout (descs g (InPort b i))) = Inr l \<and>
              input_value g1 b i = Inr src \<and>
              shape (descs g1 (InPort b i)) = pshape_to_vdims ps \<and>
              layout (descs g1 (InPort b i)) = l)
         else input_value g1 b i = Inr v \<and> descs g1 (InPort b i) = descs g (InPort b i)"
        unfolding fused_at_def by blast
      show ?thesis
      proof (cases "is_supported_transpose g v = Inr True")
        case True
        with r obtain src where "input_value g (fst v) 0 = Inr src" "input_value g1 b i = Inr src"
          by auto
        with iv1 nb \<open>k = i\<close> show ?thesis by auto
      next
        case False
        with r have "input_value g1 b i = Inr v" by simp
        with iv1 nb \<open>k = i\<close> v show ?thesis by auto
      qed
    qed
  qed
  then obtain m j where "input_value g m j = Inr (inputs (nodes g1 ! n) ! k)" by blast
  then have "m < length (nodes g)" "j < length (inputs (nodes g ! m))"
    "inputs (nodes g1 ! n) ! k = inputs (nodes g ! m) ! j" by (simp_all add: input_value_Inr)
  with wf have a: "fst (inputs (nodes g1 ! n) ! k) < length (nodes g)"
    and b: "snd (inputs (nodes g1 ! n) ! k) < length (out_shapes (nodes g ! fst (inputs (nodes g1 ! n) ! k)))"
    by (simp_all add: wf_graph_iff)
  show "fst (inputs (nodes g1 ! n) ! k) < length (nodes g1)" using a len by simp
  show "snd (inputs (nodes g1 ! n) ! k) < length (out_shapes (nodes g1 ! fst (inputs (nodes g1 ! n) ! k)))"
    using b os[OF a] by simp
next
  fix n assume n: "n < length (nodes g1)" and t: "node_op (nodes g1 ! n) = Transpose"
  from fr n have "n < length (nodes g)" "node_op (nodes g1 ! n) = node_op (nodes g ! n)"
    "length (inputs (nodes g1 ! n)) = length (inputs (nodes g ! n))" by (simp_all add: frame_def)
  with wf t show "length (inputs (nodes g1 ! n)) = 2" by (simp add: wf_graph_iff)
qed

lemma input_loop_succeeds:
  "wf_graph g \<Longrightarrow> as_brgemm g b = Some b \<Longrightarrow>
   (\<forall>j v c d. i \<le> j \<and> input_value g b j = Inr v \<and> is_supported_transpose g v = Inr True \<and>
              get_input_node_shared_ptr g (fst v) 1 = Inr c \<and> as_constant g c = Some d \<longrightarrow>
              (\<exists>l. fuse_layouts (cast_vector_size_t d) (layout (descs g (InPort b j))) = Inr l)) \<Longrightarrow>
   \<exists>g'. input_loop g b i = Inr g'"
proof (induction g b i rule: input_loop.induct)
  case (1 g b i)
  show ?case
  proof (cases "i < get_input_size g b")
    case False
    then show ?thesis by (simp add: input_loop.simps[of g b i])
  next
    case True
    have "\<exists>g1. fuse_input g b i = Inr g1"
      using "1.prems"(1,2) True
    proof (rule fuse_input_succeeds)
      fix v c d
      assume "input_value g b i = Inr v" "is_supported_transpose g v = Inr True"
        "get_input_node_shared_ptr g (fst v) 1 = Inr c" "as_constant g c = Some d"
      with "1.prems"(3) show "\<exists>l. fuse_layouts (cast_vector_size_t d) (layout (descs g (InPort b i))) = Inr l"
        by blast
    qed
    then obtain g1 where g1: "fuse_input g b i = Inr g1" by blast
    from fuse_input_step[OF g1 "1.prems"(2) True]
    have fr1: "frame b g g1"
      and other1: "\<And>j. j \<noteq> i \<Longrightarrow> input_value g1 b j = input_value g b j \<and>
                          descs g1 (InPort b j) = descs g (InPort b j)"
      and here1: "fused_at g g1 b i" by blast+
    have brg1: "as_brgemm g1 b = Some b" using frame_as_brgemm[OF fr1] "1.prems"(2) by simp
    have wf1: "wf_graph g1"
      using "1.prems"(1) fr1 "1.prems"(2) _ here1 by (rule wf_graph_step) (simp add: other1)
    have ok1: "\<forall>j v c d. Suc i \<le> j \<and> input_value g1 b j = Inr v \<and> is_supported_transpose g1 v = Inr True \<and>
              get_input_node_shared_ptr g1 (fst v) 1 = Inr c \<and> as_constant g1 c = Some d \<longrightarrow>
              (\<exists>l. fuse_layouts (cast_vector_size_t d) (layout (descs g1 (InPort b j))) = Inr l)"
    proof (intro allI impI)
      fix j v c d
      assume a: "Suc i \<le> j \<and> input_value g1 b j = Inr v \<and> is_supported_transpose g1 v = Inr True \<and>
              get_input_node_shared_ptr g1 (fst v) 1 = Inr c \<and> as_constant g1 c = Some d"
      then have ji: "j \<noteq> i" by simp
      have sup: "is_supported_transpose g v = Inr True"
        using a frame_is_supported_transpose[OF fr1 "1.prems"(2), of v] by simp
      from is_supported_transpose_True[OF sup] have "as_transpose g (fst v) = Some (fst v)" by blast
      then have ne: "fst v \<noteq> b" using "1.prems"(2) by (rule transpose_not_brgemm)
      have "i \<le> j \<and> input_value g b j = Inr v \<and> is_supported_transpose g v = Inr True \<and>
              get_input_node_shared_ptr g (fst v) 1 = Inr c \<and> as_constant g c = Some d"
        using a sup other1[OF ji] frame_get_input_node[OF fr1 ne, of 1] frame_as_constant[OF fr1, of c]
        by simp
      with "1.prems"(3) have "\<exists>l. fuse_layouts (cast_vector_size_t d) (layout (descs g (InPort b j))) = Inr l"
        by blast
      then show "\<exists>l. fuse_layouts (cast_vector_size_t d) (layout (descs g1 (InPort b j))) = Inr l"
        using other1[OF ji] by simp
    qed
    from "1.IH"[OF True g1 wf1 brg1 ok1] show ?thesis
      using True g1 by (simp add: input_loop.simps[of g b i])
  qed
qed

lemma callback_brgemm_succeeds:
  assumes "wf_graph g" "as_brgemm g b = Some b"
    and "\<forall>j v c d. input_value g b j = Inr v \<and> is_supported_transpose g v = Inr True \<and>
              get_input_node_shared_ptr g (fst v) 1 = Inr c \<and> as_constant g c = Some d \<longrightarrow>
              (\<exists>l. fuse_layouts (cast_vector_size_t d) (layout (descs g (InPort b j))) = Inr l)"
    and "\<forall>h. \<exists>s. infer h b = Inr s"
  shows "\<exists>g'. callback infer g b = Inr (g', True)"
proof -
  have "\<exists>g2. input_loop g b 0 = Inr g2"
    using assms(1,2) by (rule input_loop_succeeds) (use assms(3) in simp)
  then obtain g2 where g2: "input_loop g b 0 = Inr g2" by blast
  from assms(4) obtain s where "infer g2 b = Inr s" by blast
  with g2 assms(2) show ?thesis by (simp add: callback_def validate_and_infer_types_def)
qed

lemma rewired_as_constant: "rewired old new g g' \<Longrightarrow> as_constant g' n = as_constant g n"
  by (simp add: rewired_def as_constant_def node_at_def)

lemma rewired_wf:
  assumes wf: "wf_graph g" and rw: "rewired old new g g1"
    and new: "fst new < length (nodes g)" "snd new < length (out_shapes (nodes g ! fst new))"
  shows "wf_graph g1"
  unfolding wf_graph_iff
proof (intro allI impI conjI)
  fix n k assume n: "n < length (nodes g1)" and k: "k < length (inputs (nodes g1 ! n))"
  from rw have len: "length (nodes g1) = length (nodes g)" by (simp add: rewired_def)
  have os: "out_shapes (nodes g1 ! m) = out_shapes (nodes g ! m)" if "m < length (nodes g)" for m
    using rw that by (simp add: rewired_def)
  from rw n k len have k': "k < length (inputs (nodes g ! n))" by (simp add: rewired_def)
  from rw n k' len have s: "inputs (nodes g1 ! n) ! k =
      (if inputs (nodes g ! n) ! k = old then new else inputs (nodes g ! n) ! k)"
    by (simp add: rewired_def)
  from wf n k' len have old: "fst (inputs (nodes g ! n) ! k) < length (nodes g)"
    "snd (inputs (nodes g ! n) ! k) < length (out_shapes (nodes g ! fst (inputs (nodes g ! n) ! k)))"
    by (simp_all add: wf_graph_iff)
  have a: "fst (inputs (nodes g1 ! n) ! k) < length (nodes g)"
    and b: "snd (inputs (nodes g1 ! n) ! k) < length (out_shapes (nodes g ! fst (inputs (nodes g1 ! n) ! k)))"
    unfolding s using old new by simp_all
  show "fst (inputs (nodes g1 ! n) ! k) < length (nodes g1)" using a len by simp
  show "snd (inputs (nodes g1 ! n) ! k) < length (out_shapes (nodes g1 ! fst (inputs (nodes g1 ! n) ! k)))"
    using b os[OF a] by simp
next
  fix n assume n: "n < length (nodes g1)" and t: "node_op (nodes g1 ! n) = Transpose"
  from rw n have "n < length (nodes g)" "node_op (nodes g1 ! n) = node_op (nodes g ! n)"
    "length (inputs (nodes g1 ! n)) = length (inputs (nodes g ! n))" by (simp_all add: rewired_def)
  with wf t show "length (inputs (nodes g1 ! n)) = 2" by (simp add: wf_graph_iff)
qed

lemma rewired_input_constant:
  assumes rw: "rewired old new g g1"
    and nc: "as_constant g (fst old) = None" "as_constant g (fst new) = None"
    and c1: "get_input_node_shared_ptr g1 t k = Inr c" and d: "as_constant g c = Some d"
  shows "get_input_node_shared_ptr g t k = Inr c"
proof -
  from c1 obtain s1 where s1: "input_value g1 t k = Inr s1" and c: "c = fst s1"
    by (auto simp: get_input_node_shared_ptr_def bind_result_Inr_iff)
  from s1 obtain s where s: "input_value g t k = Inr s" and e: "s1 = (if s = old then new else s)"
    unfolding rewired_input_value[OF rw] by (cases "input_value g t k") auto
  have "s \<noteq> old" using e c d nc(2) by auto
  with e c s show ?thesis by (simp add: get_input_node_shared_ptr_def)
qed

lemma rewired_is_supported_transpose:
  assumes rw: "rewired old new g g1"
    and nc: "as_constant g (fst old) = None" "as_constant g (fst new) = None"
  shows "is_supported_transpose g1 v = is_supported_transpose g v"
proof (cases "as_transpose g (fst v)")
  case None
  then show ?thesis by (simp add: is_supported_transpose_def rewired_as_transpose[OF rw])
next
  case (Some t)
  show ?thesis
  proof (cases "input_value g t 1")
    case (Inl e)
    then show ?thesis using Some
      by (simp add: is_supported_transpose_def rewired_as_transpose[OF rw]
          get_input_node_shared_ptr_def rewired_input_value[OF rw])
  next
    case (Inr s)
    show ?thesis
    proof (cases "s = old")
      case True
      then show ?thesis using Some Inr nc
        by (simp add: is_supported_transpose_def rewired_as_transpose[OF rw]
            get_input_node_shared_ptr_def rewired_input_value[OF rw] rewired_as_constant[OF rw])
    next
      case False
      then show ?thesis using Some Inr
        by (simp add: is_supported_transpose_def rewired_as_transpose[OF rw]
            get_input_node_shared_ptr_def rewired_input_value[OF rw] rewired_as_constant[OF rw])
    qed
  qed
qed

lemma as_constant_transpose: "as_transpose g t = Some t' \<Longrightarrow> as_constant g t = None"
  by (auto simp: as_transpose_def as_constant_def node_at_def split: if_splits)

lemma as_constant_brgemm: "as_brgemm g b = Some b' \<Longrightarrow> as_constant g b = None"
  by (auto simp: as_brgemm_def as_constant_def node_at_def split: if_splits)

lemma callback_transpose_succeeds:
  assumes wf: "wf_graph g" and rt1: "as_transpose g root = Some root"
    and b: "get_input_node_shared_ptr g root 0 = Inr b" and brg: "as_brgemm g b = Some b"
    and c: "get_input_node_shared_ptr g root 1 = Inr c" and d: "as_constant g c = Some d"
    and ps: "get_partial_shape g (root, 0) = Inr ps"
    and l: "fuse_layouts (layout (descs g (OutPort b 0))) (cast_vector_size_t d) = Inr l"
    and in_ok: "\<forall>j v c d.
              input_value g b j = Inr v \<and> is_supported_transpose g v = Inr True \<and>
              get_input_node_shared_ptr g (fst v) 1 = Inr c \<and> as_constant g c = Some d \<longrightarrow>
              (\<exists>l. fuse_layouts (cast_vector_size_t d) (layout (descs g (InPort b j))) = Inr l)"
    and inf: "\<forall>h. \<exists>s. infer h b = Inr s"
  shows "\<exists>g'. callback infer g root = Inr (g', True)"
proof -
  note rt = rt1 as_brgemm_transpose[OF rt1]
  define gd where "gd = set_layout (set_shape g (OutPort b 0) (pshape_to_vdims ps)) (OutPort b 0) l"
  define g1 where "g1 = fold (\<lambda>inp h. replace_source_output h inp (b, 0))
      (get_target_inputs gd (root, 0)) gd"
  have cg: "as_constant (set_shape g (OutPort b 0) (pshape_to_vdims ps)) c = Some d"
    using d as_constant_nodes[of "set_shape g (OutPort b 0) (pshape_to_vdims ps)" g c] by simp
  have la: "get_layout (set_shape g (OutPort b 0) (pshape_to_vdims ps)) (OutPort b 0) =
            layout (descs g (OutPort b 0))"
    by (simp add: get_layout_def get_port_descriptor_def set_shape_def)
  have of: "output_fusion g root = Inr (g1, b)"
    using b brg c ps cg la l by (simp add: output_fusion_def Let_def g1_def gd_def)
  have ngd: "nodes gd = nodes g" by (simp add: gd_def)
  have rw: "rewired (root, 0) (b, 0) g g1"
    unfolding g1_def using ngd by (rule rewired_fold)
  have d1: "descs g1 = descs gd"
    unfolding g1_def
    by (rule fold_replace_source_output[of "(b, 0)" "get_target_inputs gd (root, 0)" gd, THEN conjunct1])
  have brg1: "as_brgemm g1 b = Some b" using rewired_as_brgemm[OF rw] brg by simp
  txt \<open>Output 0 of the Brgemm exists: the root reads an output of the Brgemm.\<close>
  from b obtain s where s: "input_value g root 0 = Inr s" and bs: "b = fst s"
    by (auto simp: get_input_node_shared_ptr_def bind_result_Inr_iff)
  from wf_graph_source[OF wf s] obtain ps' where "get_partial_shape g s = Inr ps'" by blast
  then have "fst s < length (nodes g) \<and> snd s < length (out_shapes (nodes g ! fst s))"
    by (simp add: get_partial_shape_def node_at_def split: if_splits)
  with bs have b0: "b < length (nodes g)" "0 < length (out_shapes (nodes g ! b))"
    by auto
  have wf1: "wf_graph g1" using wf rw by (rule rewired_wf) (use b0 in simp_all)
  have nc: "as_constant g (fst (root, 0)) = None" "as_constant g (fst (b, 0)) = None"
    using as_constant_transpose[OF rt(1)] as_constant_brgemm[OF brg] by simp_all
  have ok1: "\<forall>j v c d. 0 \<le> j \<and> input_value g1 b j = Inr v \<and> is_supported_transpose g1 v = Inr True \<and>
              get_input_node_shared_ptr g1 (fst v) 1 = Inr c \<and> as_constant g1 c = Some d \<longrightarrow>
              (\<exists>l. fuse_layouts (cast_vector_size_t d) (layout (descs g1 (InPort b j))) = Inr l)"
  proof (intro allI impI)
    fix j v c' d'
    assume a: "0 \<le> j \<and> input_value g1 b j = Inr v \<and> is_supported_transpose g1 v = Inr True \<and>
              get_input_node_shared_ptr g1 (fst v) 1 = Inr c' \<and> as_constant g1 c' = Some d'"
    then have sup: "is_supported_transpose g v = Inr True"
      by (simp add: rewired_is_supported_transpose[OF rw nc])
    have d': "as_constant g c' = Some d'" using a by (simp add: rewired_as_constant[OF rw])
    have c': "get_input_node_shared_ptr g (fst v) 1 = Inr c'"
      using rw nc _ d' by (rule rewired_input_constant) (use a in simp)
    from a obtain v0 where v0: "input_value g b j = Inr v" if "v \<noteq> (b, 0)"
      unfolding rewired_input_value[OF rw] by (cases "input_value g b j") (auto split: if_splits)
    have "v \<noteq> (b, 0)" using a is_supported_transpose_brgemm[OF brg1, of 0] by auto
    then have "input_value g b j = Inr v" by (rule v0)
    with in_ok sup c' d'
    have "\<exists>l. fuse_layouts (cast_vector_size_t d') (layout (descs g (InPort b j))) = Inr l" by blast
    then show "\<exists>l. fuse_layouts (cast_vector_size_t d') (layout (descs g1 (InPort b j))) = Inr l"
      by (simp add: d1 gd_def descs_set_shape_layout)
  qed
  from input_loop_succeeds[OF wf1 brg1 ok1] obtain g2 where g2: "input_loop g1 b 0 = Inr g2" by blast
  from inf obtain sh where "infer g2 b = Inr sh" by blast
  with of g2 rt(2) show ?thesis by (simp add: callback_def validate_and_infer_types_def)
qed

lemma fuse_layouts_empty_right: "fuse_layouts l [] = Inr l"
  by (simp add: fuse_layouts_def)

lemma fuse_layouts_empty_left: "fuse_layouts [] l = Inr l"
  by (simp add: fuse_layouts_def)

lemma fuse_layouts_keeps_permutation:
  assumes p: "valid_permutation p"
    and q: "q = [] \<or> (valid_permutation q \<and> length q = length p)"
  shows "\<exists>l. fuse_layouts p q = Inr l \<and> valid_permutation l \<and> length l = length p"
    and "\<exists>l. fuse_layouts q p = Inr l \<and> valid_permutation l \<and> length l = length p"
proof -
  show "\<exists>l. fuse_layouts p q = Inr l \<and> valid_permutation l \<and> length l = length p"
  proof (cases "q = []")
    case True
    then show ?thesis using p by (simp add: fuse_layouts_empty_right)
  next
    case False
    with q have vq: "valid_permutation q" and len: "length p = length q" by simp_all
    from fuse_layouts_permutations[OF p vq len] valid_permutation_compose[OF p vq len] len
    show ?thesis by simp
  qed
  show "\<exists>l. fuse_layouts q p = Inr l \<and> valid_permutation l \<and> length l = length p"
  proof (cases "q = []")
    case True
    then show ?thesis using p by (simp add: fuse_layouts_empty_left)
  next
    case False
    with q have vq: "valid_permutation q" and len: "length q = length p" by simp_all
    from fuse_layouts_permutations[OF vq p len] valid_permutation_compose[OF vq p len] len
    show ?thesis by simp
  qed
qed

subsection \<open>The result of fuse_layouts, written out\<close>

lemma fuse_layouts_Inr:
  assumes "fuse_layouts a b = Inr l"
  shows "l = (if a = [] then b else if b = [] then a else map (\<lambda>j. a ! j) b) \<and>
         (a \<noteq> [] \<and> b \<noteq> [] \<longrightarrow> length a = length b \<and> (\<forall>j < length b. b ! j < length a))"
proof (cases "a = [] \<or> b = []")
  case True
  then show ?thesis using assms by (auto simp: fuse_layouts_def)
next
  case False
  then have ne: "a \<noteq> []" "b \<noteq> []" by simp_all
  have len: "length a = length b"
    using assms ne by (auto simp: fuse_layouts_def split: if_splits)
  have rng: "\<forall>j < length b. b ! j < length a"
  proof (rule ccontr)
    assume "\<not> (\<forall>j < length b. b ! j < length a)"
    then obtain j where "0 \<le> j" "j < length a" "\<not> b ! j < length a" using len by auto
    then have "\<exists>msg. fuse_layouts_loop a b 0 (replicate (length a) 0) = Inl (AssertFailure msg)"
      by (rule fuse_layouts_loop_fail)
    with assms ne len show False by (auto simp: fuse_layouts_def)
  qed
  have "fuse_layouts a b = Inr (map (\<lambda>j. a ! j) b)"
    using ne(1) len[symmetric] rng by (rule fuse_layouts_in_range)
  with assms have "l = map (\<lambda>j. a ! j) b" by simp
  with ne len rng show ?thesis by simp
qed

lemma is_supported_transpose_order_nonempty:
  "is_supported_transpose_order (cast_vector_i32 d) \<Longrightarrow> cast_vector_size_t d \<noteq> []"
  by (auto simp: is_supported_transpose_order_def cast_vector_i32_def cast_vector_size_t_def)

subsection \<open>The callback on a Transpose root, step by step\<close>

lemma rewired_get_partial_shape:
  "rewired old new g g' \<Longrightarrow> get_partial_shape g' v = get_partial_shape g v"
  by (simp add: rewired_def get_partial_shape_def node_at_def)

lemma callback_transpose_decompose:
  assumes cb: "callback infer g root = Inr (g', changed)" and rt1: "as_transpose g root = Some root"
  shows "\<exists>g1 b g2 c d ps l.
    get_input_node_shared_ptr g root 0 = Inr b \<and> as_brgemm g b = Some b \<and>
    get_input_node_shared_ptr g root 1 = Inr c \<and> as_constant g c = Some d \<and>
    get_partial_shape g (root, 0) = Inr ps \<and>
    fuse_layouts (layout (descs g (OutPort b 0))) (cast_vector_size_t d) = Inr l \<and>
    rewired (root, 0) (b, 0) g g1 \<and>
    (\<forall>n k. descs g1 (InPort n k) = descs g (InPort n k)) \<and>
    frame b g1 g2 \<and>
    (\<forall>j. j < get_input_size g1 b \<longrightarrow> fused_at g1 g2 b j) \<and>
    validate_and_infer_types infer g2 b = Inr g'"
proof -
  note rt = rt1 as_brgemm_transpose[OF rt1]
  from callback_transpose_Inr[OF cb rt(2)] obtain g1 b g2
    where of: "output_fusion g root = Inr (g1, b)" and lp: "input_loop g1 b 0 = Inr g2"
      and va: "validate_and_infer_types infer g2 b = Inr g'" by blast
  from output_fusion_Inr[OF of] obtain c ps d l
    where b0: "get_input_node_shared_ptr g root 0 = Inr b" and brg: "as_brgemm g b = Some b"
      and c: "get_input_node_shared_ptr g root 1 = Inr c" and d: "as_constant g c = Some d"
      and ps: "get_partial_shape g (root, 0) = Inr ps"
      and l: "fuse_layouts (layout (descs g (OutPort b 0))) (cast_vector_size_t d) = Inr l"
      and g1: "g1 = fold (\<lambda>inp h. replace_source_output h inp (b, 0))
            (get_target_inputs (set_layout (set_shape g (OutPort b 0) (pshape_to_vdims ps)) (OutPort b 0) l) (root, 0))
            (set_layout (set_shape g (OutPort b 0) (pshape_to_vdims ps)) (OutPort b 0) l)"
    by blast
  define gd where "gd = set_layout (set_shape g (OutPort b 0) (pshape_to_vdims ps)) (OutPort b 0) l"
  have ngd: "nodes gd = nodes g" by (simp add: gd_def)
  have rw: "rewired (root, 0) (b, 0) g g1"
    unfolding g1 gd_def[symmetric] using ngd by (rule rewired_fold)
  have d1: "descs g1 = descs gd"
    unfolding g1 gd_def[symmetric]
    by (rule fold_replace_source_output[of "(b, 0)" "get_target_inputs gd (root, 0)" gd, THEN conjunct1])
  have din: "descs g1 (InPort n k) = descs g (InPort n k)" for n k
    unfolding d1 gd_def by (simp add: descs_set_shape_layout)
  have brg1: "as_brgemm g1 b = Some b" using rewired_as_brgemm[OF rw] brg by simp
  note post = input_loop_post[OF lp brg1]
  have fr: "frame b g1 g2" using post by (rule conjunct1)
  have fu: "fused_at g1 g2 b j" if "j < get_input_size g1 b" for j
    using post[THEN conjunct2, THEN conjunct2] that by simp
  show ?thesis
    apply (rule exI[of _ g1], rule exI[of _ b], rule exI[of _ g2], rule exI[of _ c],
           rule exI[of _ d], rule exI[of _ ps], rule exI[of _ l])
    apply (intro conjI allI impI)
    apply (rule b0 brg c d ps l rw din fr va | erule fu)+
    done
qed

lemma callback_transpose_inputs_post:
  assumes cb: "callback infer g root = Inr (g', changed)" and rt1: "as_transpose g root = Some root"
    and b: "get_input_node_shared_ptr g root 0 = Inr b"
    and v: "input_value g b i = Inr v" and sup: "is_supported_transpose g v = Inr True"
    and ne: "v \<noteq> (root, 0)"
  shows "\<exists>c d src ps l.
     get_input_node_shared_ptr g (fst v) 1 = Inr c \<and> as_constant g c = Some d \<and>
     input_value g (fst v) 0 = Inr src \<and>
     get_partial_shape g (if src = (root, 0) then (b, 0) else src) = Inr ps \<and>
     fuse_layouts (cast_vector_size_t d) (layout (descs g (InPort b i))) = Inr l \<and>
     input_value g' b i = Inr (if src = (root, 0) then (b, 0) else src) \<and>
     shape (descs g' (InPort b i)) = pshape_to_vdims ps \<and>
     layout (descs g' (InPort b i)) = l"
proof -
  from callback_transpose_decompose[OF cb rt1] obtain g1 b' g2 where
    b': "get_input_node_shared_ptr g root 0 = Inr b'" and brg': "as_brgemm g b' = Some b'"
    and rw': "rewired (root, 0) (b', 0) g g1"
    and din': "\<forall>n k. descs g1 (InPort n k) = descs g (InPort n k)"
    and fr': "frame b' g1 g2"
    and fu': "\<forall>j. j < get_input_size g1 b' \<longrightarrow> fused_at g1 g2 b' j"
    and va': "validate_and_infer_types infer g2 b' = Inr g'"
    by blast
  have bb: "b' = b" using b b' by simp
  note brg = brg'[unfolded bb] and rw = rw'[unfolded bb] and fr = fr'[unfolded bb]
    and fu = fu'[unfolded bb] and va = va'[unfolded bb]
  have v1: "input_value g1 b i = Inr v"
    using v ne by (simp add: rewired_input_value[OF rw])
  then have lt: "i < get_input_size g1 b" by (simp add: get_input_size_less input_value_Inr)
  have nc: "as_constant g (fst (root, 0 :: nat)) = None" "as_constant g (fst (b, 0 :: nat)) = None"
    using as_constant_transpose[OF rt1] as_constant_brgemm[OF brg] by simp_all
  have sup1: "is_supported_transpose g1 v = Inr True"
    using sup by (simp add: rewired_is_supported_transpose[OF rw nc])
  from fu[rule_format, OF lt] v1 sup1 obtain c d src1 ps l where
    f: "get_input_node_shared_ptr g1 (fst v) 1 = Inr c" "as_constant g1 c = Some d"
      "input_value g1 (fst v) 0 = Inr src1" "get_partial_shape g1 src1 = Inr ps"
      "fuse_layouts (cast_vector_size_t d) (layout (descs g1 (InPort b i))) = Inr l"
    and r: "input_value g2 b i = Inr src1"
      "shape (descs g2 (InPort b i)) = pshape_to_vdims ps"
      "layout (descs g2 (InPort b i)) = l"
    unfolding fused_at_def by auto
  have d: "as_constant g c = Some d" using f(2) by (simp add: rewired_as_constant[OF rw])
  have c: "get_input_node_shared_ptr g (fst v) 1 = Inr c"
    using rw nc f(1) d by (rule rewired_input_constant)
  from f(3) obtain src where src: "input_value g (fst v) 0 = Inr src"
    and s1: "src1 = (if src = (root, 0) then (b, 0) else src)"
    unfolding rewired_input_value[OF rw] by (cases "input_value g (fst v) 0") auto
  have ps: "get_partial_shape g src1 = Inr ps"
    using f(4) by (simp add: rewired_get_partial_shape[OF rw])
  have l: "fuse_layouts (cast_vector_size_t d) (layout (descs g (InPort b i))) = Inr l"
    using f(5) by (simp add: din')
  have d': "descs g' = descs g2" using validate_and_infer_types_Inr[OF va] by simp
  have r': "input_value g' b i = Inr src1"
      "shape (descs g' (InPort b i)) = pshape_to_vdims ps"
      "layout (descs g' (InPort b i)) = l"
    using r by (simp_all add: d' validate_input_value[OF va])
  show ?thesis
    apply (rule exI[of _ c], rule exI[of _ d], rule exI[of _ src], rule exI[of _ ps], rule exI[of _ l])
    apply (intro conjI)
    apply (rule c d src ps[unfolded s1] l r'[unfolded s1])+
    done
qed

text \<open>Both kinds of root: the Brgemm itself, or a Transpose fed by the Brgemm.\<close>

lemma callback_inputs_post:
  assumes cb: "callback infer g root = Inr (g', changed)"
    and root: "as_brgemm g root = Some brgemm \<or>
               (as_transpose g root = Some root \<and> get_input_node_shared_ptr g root 0 = Inr brgemm)"
    and v: "input_value g brgemm i = Inr v" and sup: "is_supported_transpose g v = Inr True"
    and ne: "v \<noteq> (root, 0)"
  shows "\<exists>c d src ps.
     get_input_node_shared_ptr g (fst v) 1 = Inr c \<and> as_constant g c = Some d \<and>
     cast_vector_size_t d \<noteq> [] \<and>
     input_value g (fst v) 0 = Inr src \<and>
     get_partial_shape g (if src = (root, 0) then (brgemm, 0) else src) = Inr ps \<and>
     input_value g' brgemm i = Inr (if src = (root, 0) then (brgemm, 0) else src) \<and>
     shape (descs g' (InPort brgemm i)) = pshape_to_vdims ps \<and>
     layout (descs g' (InPort brgemm i)) =
       (if layout (descs g (InPort brgemm i)) = [] then cast_vector_size_t d
        else map (\<lambda>j. cast_vector_size_t d ! j) (layout (descs g (InPort brgemm i)))) \<and>
     (layout (descs g (InPort brgemm i)) \<noteq> [] \<longrightarrow>
        length (cast_vector_size_t d) = length (layout (descs g (InPort brgemm i))) \<and>
        (\<forall>j < length (layout (descs g (InPort brgemm i))).
           layout (descs g (InPort brgemm i)) ! j < length (cast_vector_size_t d)))"
proof -
  have "\<exists>c d src ps l.
     get_input_node_shared_ptr g (fst v) 1 = Inr c \<and> as_constant g c = Some d \<and>
     input_value g (fst v) 0 = Inr src \<and>
     get_partial_shape g (if src = (root, 0) then (brgemm, 0) else src) = Inr ps \<and>
     fuse_layouts (cast_vector_size_t d) (layout (descs g (InPort brgemm i))) = Inr l \<and>
     input_value g' brgemm i = Inr (if src = (root, 0) then (brgemm, 0) else src) \<and>
     shape (descs g' (InPort brgemm i)) = pshape_to_vdims ps \<and>
     layout (descs g' (InPort brgemm i)) = l"
    using root
  proof
    assume brg: "as_brgemm g root = Some brgemm"
    then have rb: "root = brgemm" using as_brgemm_Some[of g root brgemm] by simp
    from callback_brgemm_post[OF cb[unfolded rb] brg[unfolded rb] v sup]
    show ?thesis unfolding rb by (auto split: if_splits)
  next
    assume "as_transpose g root = Some root \<and> get_input_node_shared_ptr g root 0 = Inr brgemm"
    then have rt1: "as_transpose g root = Some root"
      and b: "get_input_node_shared_ptr g root 0 = Inr brgemm" by simp_all
    show ?thesis using cb rt1 b v sup ne by (rule callback_transpose_inputs_post)
  qed
  then obtain c d src ps l where
    f: "get_input_node_shared_ptr g (fst v) 1 = Inr c" "as_constant g c = Some d"
     "input_value g (fst v) 0 = Inr src"
     "get_partial_shape g (if src = (root, 0) then (brgemm, 0) else src) = Inr ps"
     "input_value g' brgemm i = Inr (if src = (root, 0) then (brgemm, 0) else src)"
     "shape (descs g' (InPort brgemm i)) = pshape_to_vdims ps"
    and l: "fuse_layouts (cast_vector_size_t d) (layout (descs g (InPort brgemm i))) = Inr l"
    and la: "layout (descs g' (InPort brgemm i)) = l"
    by blast
  from is_supported_transpose_True[OF sup] f(1,2)
  have "is_supported_transpose_order (cast_vector_i32 d)" by auto
  then have ne_d: "cast_vector_size_t d \<noteq> []" by (rule is_supported_transpose_order_nonempty)
  note e = fuse_layouts_Inr[OF l]
  have e1: "layout (descs g' (InPort brgemm i)) =
       (if layout (descs g (InPort brgemm i)) = [] then cast_vector_size_t d
        else map (\<lambda>j. cast_vector_size_t d ! j) (layout (descs g (InPort brgemm i))))"
    using e[THEN conjunct1] ne_d la by simp
  have e2: "layout (descs g (InPort brgemm i)) \<noteq> [] \<longrightarrow>
        length (cast_vector_size_t d) = length (layout (descs g (InPort brgemm i))) \<and>
        (\<forall>j < length (layout (descs g (InPort brgemm i))).
           layout (descs g (InPort brgemm i)) ! j < length (cast_vector_size_t d))"
    using e[THEN conjunct2] ne_d by metis
  show ?thesis
    apply (rule exI[of _ c], rule exI[of _ d], rule exI[of _ src], rule exI[of _ ps])
    apply (intro conjI)
    apply (rule f ne_d e1 e2)+
    done
qed

subsection \<open>The transpose after the output branch: no node reads it\<close>

lemma rewired_source:
  assumes "rewired old new g g1" "input_value g1 n k = Inr s"
  shows "s = new \<or> (\<exists>m j. input_value g m j = Inr s)"
  using assms(2) unfolding rewired_input_value[OF assms(1)]
  by (cases "input_value g n k") (auto split: if_splits)

lemma loop_source:
  assumes fr: "frame b g1 g2"
    and fu: "\<forall>j. j < get_input_size g1 b \<longrightarrow> fused_at g1 g2 b j"
    and s: "input_value g2 n k = Inr s"
  shows "\<exists>m j. input_value g1 m j = Inr s"
proof (cases "n = b")
  case False
  then show ?thesis using s frame_input_value[OF fr False, of k] by metis
next
  case True
  from s True have "k < get_input_size g2 b" by (simp add: get_input_size_less input_value_Inr)
  then have "k < get_input_size g1 b" by (simp only: frame_get_input_size[OF fr])
  with fu have "fused_at g1 g2 b k" by blast
  then obtain v where v1: "input_value g1 b k = Inr v"
    and r: "if is_supported_transpose g1 v = Inr True then
           (\<exists>c d src ps l.
              get_input_node_shared_ptr g1 (fst v) 1 = Inr c \<and> as_constant g1 c = Some d \<and>
              input_value g1 (fst v) 0 = Inr src \<and> get_partial_shape g1 src = Inr ps \<and>
              fuse_layouts (cast_vector_size_t d) (layout (descs g1 (InPort b k))) = Inr l \<and>
              input_value g2 b k = Inr src \<and>
              shape (descs g2 (InPort b k)) = pshape_to_vdims ps \<and>
              layout (descs g2 (InPort b k)) = l)
         else input_value g2 b k = Inr v \<and> descs g2 (InPort b k) = descs g1 (InPort b k)"
    unfolding fused_at_def by blast
  show ?thesis
  proof (cases "is_supported_transpose g1 v = Inr True")
    case sup: True
    with r obtain src where "input_value g1 (fst v) 0 = Inr src" "input_value g2 b k = Inr src"
      by auto
    with s True show ?thesis by auto
  next
    case False
    with r have "input_value g2 b k = Inr v" by simp
    with s True v1 show ?thesis by auto
  qed
qed

lemma callback_transpose_detached:
  assumes cb: "callback infer g root = Inr (g', changed)" and rt1: "as_transpose g root = Some root"
    and wf: "wf_graph g" and one: "length (out_shapes (nodes g ! root)) = 1"
  shows "\<forall>n k s. input_value g' n k = Inr s \<longrightarrow> fst s \<noteq> root"
proof -
  from callback_transpose_decompose[OF cb rt1] obtain g1 b g2 where
    brg: "as_brgemm g b = Some b"
    and rw: "rewired (root, 0) (b, 0) g g1"
    and fr: "frame b g1 g2"
    and fu: "\<forall>j. j < get_input_size g1 b \<longrightarrow> fused_at g1 g2 b j"
    and va: "validate_and_infer_types infer g2 b = Inr g'"
    by blast
  from callback_transpose_post[OF cb rt1] have nocons: "get_target_inputs g' (root, 0) = []" by blast
  have ne: "root \<noteq> b" using rt1 brg by (rule transpose_not_brgemm)
  have src: "fst s \<noteq> root" if s: "input_value g' n k = Inr s" for n k s
  proof
    assume fs: "fst s = root"
    from s have "n < length (nodes g')" "k < length (inputs (nodes g' ! n))"
      "s = inputs (nodes g' ! n) ! k" by (simp_all add: input_value_Inr)
    with nocons have s0: "s \<noteq> (root, 0)" by (simp add: get_target_inputs_Nil)
    from s have "input_value g2 n k = Inr s" by (simp add: validate_input_value[OF va])
    from loop_source[OF fr fu this] obtain m j where "input_value g1 m j = Inr s" by blast
    from rewired_source[OF rw this] have "s = (b, 0) \<or> (\<exists>m j. input_value g m j = Inr s)" .
    with fs ne obtain m' j' where "input_value g m' j' = Inr s" by auto
    from wf_graph_source[OF wf this] obtain ps where "get_partial_shape g s = Inr ps" by blast
    then have "snd s < length (out_shapes (nodes g ! fst s))"
      by (simp add: get_partial_shape_def node_at_def split: if_splits)
    with fs one have "snd s = 0" by simp
    with fs s0 show False by (cases s) simp
  qed
  from src show ?thesis by blast
qed

lemma callback_transpose_self_input:
  assumes cb: "callback infer g root = Inr (g', changed)" and rt1: "as_transpose g root = Some root"
    and b: "get_input_node_shared_ptr g root 0 = Inr b"
    and v: "input_value g b i = Inr (root, 0)"
  shows "input_value g' b i = Inr (b, 0) \<and> descs g' (InPort b i) = descs g (InPort b i)"
proof -
  from callback_transpose_decompose[OF cb rt1] obtain g1 b' g2 where
    b': "get_input_node_shared_ptr g root 0 = Inr b'" and brg': "as_brgemm g b' = Some b'"
    and rw': "rewired (root, 0) (b', 0) g g1"
    and din: "\<forall>n k. descs g1 (InPort n k) = descs g (InPort n k)"
    and fu': "\<forall>j. j < get_input_size g1 b' \<longrightarrow> fused_at g1 g2 b' j"
    and va': "validate_and_infer_types infer g2 b' = Inr g'"
    by blast
  have bb: "b' = b" using b b' by simp
  note brg = brg'[unfolded bb] and rw = rw'[unfolded bb]
    and fu = fu'[unfolded bb] and va = va'[unfolded bb]
  have v1: "input_value g1 b i = Inr (b, 0)"
    using v by (simp add: rewired_input_value[OF rw])
  then have lt: "i < get_input_size g1 b" by (simp add: get_input_size_less input_value_Inr)
  have brg1: "as_brgemm g1 b = Some b" using brg by (simp add: rewired_as_brgemm[OF rw])
  have ns: "is_supported_transpose g1 (b, 0) \<noteq> Inr True"
    by (simp add: is_supported_transpose_brgemm[OF brg1])
  from fu[rule_format, OF lt] v1 ns
  have r: "input_value g2 b i = Inr (b, 0)" "descs g2 (InPort b i) = descs g1 (InPort b i)"
    unfolding fused_at_def by auto
  have d': "descs g' = descs g2" using validate_and_infer_types_Inr[OF va] by simp
  show ?thesis using r din by (simp add: d' validate_input_value[OF va])
qed

subsection \<open>The example graphs, evaluated\<close>

lemmas eval_defs = callback_def as_brgemm_def as_transpose_def as_constant_def node_at_def
  bind_result_def fuse_input_def get_input_size_def is_supported_transpose_def
  get_input_node_shared_ptr_def input_value_def cast_vector_i32_def
  is_supported_transpose_order_def set_argument_def set_shape_def set_layout_def get_layout_def
  get_port_descriptor_def get_input_partial_shape_def get_partial_shape_def pshape_to_vdims_def
  cast_vector_size_t_def fuse_layouts_def validate_and_infer_types_def keep_shapes_def no_descs_def
  output_fusion_def get_target_inputs_def replace_source_output_def Let_def

lemma g_inputs_find_match: "find_match g_inputs = Some 6"
  by code_simp

lemma g_inputs_fused_find_match: "find_match g_inputs_fused = None"
  by code_simp

lemma g_inputs_callback: "callback keep_shapes g_inputs 6 = Inr (g_inputs_fused, True)"
  by (simp add: g_inputs_def g_inputs_fused_def eval_defs)

lemma g_output_ok_find_match: "find_match g_output_ok = Some 4"
  by code_simp

lemma g_output_fused_find_match: "find_match g_output_fused = None"
  by code_simp

lemma g_output_ok_callback: "callback keep_shapes g_output_ok 4 = Inr (g_output_fused, True)"
  by (simp add: g_output_ok_def g_output_fused_def eval_defs)

subsection \<open>The callback, the value-level check and the pass\<close>

text \<open>
  Claim C1. The loop of lines 105-119 runs on the Brgemm of the match: the root itself
  (line 70), or the producer of input 0 of a Transpose root, after the output branch
  (lines 89-103). In both cases, on a well-formed graph in which the layout compositions
  and the revalidation succeed, the callback returns. Whenever it returns, every input
  \<open>i\<close> of the Brgemm whose source \<open>v\<close> is a supported transpose is fed by the data input of
  that transpose, and the descriptor of input port \<open>i\<close> has the shape of that data and, as
  layout, the composition of the order of the transpose (outer) with the layout recorded
  before (inner): the list whose entry \<open>j\<close> is \<open>order ! (layout ! j)\<close>, every entry of the
  layout being an index of the order, and the order itself when no layout was recorded;
  so with order \<open>[1, 0, 2]\<close> and no layout recorded the layout is \<open>[1, 0, 2]\<close>. This holds
  for all inputs of one call, so two transposed inputs are fused by one invocation.

  Under a Transpose root the loop reads the graph in which the consumers of the root
  already read output 0 of the Brgemm, so a source \<open>(root, 0)\<close> reads as \<open>(brgemm, 0)\<close>
  there: an input of the Brgemm that consumed the root itself is by then produced by the
  Brgemm, not by a transpose, and keeps its descriptor.
\<close>
theorem callback_input_fusion:
  assumes root: "as_brgemm g root = Some brgemm \<or>
                 (as_transpose g root = Some root \<and>
                  get_input_node_shared_ptr g root 0 = Inr brgemm)"
  shows
   "(wf_graph g \<and>
     (as_transpose g root = Some root \<longrightarrow>
        as_brgemm g brgemm = Some brgemm \<and>
        (\<exists>c d ps l. get_input_node_shared_ptr g root 1 = Inr c \<and> as_constant g c = Some d \<and>
           get_partial_shape g (root, 0) = Inr ps \<and>
           fuse_layouts (layout (descs g (OutPort brgemm 0))) (cast_vector_size_t d) = Inr l)) \<and>
     (\<forall>j v c d. input_value g brgemm j = Inr v \<and> is_supported_transpose g v = Inr True \<and>
        get_input_node_shared_ptr g (fst v) 1 = Inr c \<and> as_constant g c = Some d \<longrightarrow>
        (\<exists>l. fuse_layouts (cast_vector_size_t d) (layout (descs g (InPort brgemm j))) = Inr l)) \<and>
     (\<forall>h. \<exists>s. infer h brgemm = Inr s)
     \<longrightarrow> (\<exists>g'. callback infer g root = Inr (g', True))) \<and>
    (\<forall>g' changed i v.
       callback infer g root = Inr (g', changed) \<and>
       input_value g brgemm i = Inr v \<and> is_supported_transpose g v = Inr True \<longrightarrow>
       (if v = (root, 0)
        then input_value g' brgemm i = Inr (brgemm, 0) \<and>
             descs g' (InPort brgemm i) = descs g (InPort brgemm i)
        else (\<exists>c d src ps.
          get_input_node_shared_ptr g (fst v) 1 = Inr c \<and> as_constant g c = Some d \<and>
          cast_vector_size_t d \<noteq> [] \<and>
          input_value g (fst v) 0 = Inr src \<and>
          get_partial_shape g (if src = (root, 0) then (brgemm, 0) else src) = Inr ps \<and>
          input_value g' brgemm i = Inr (if src = (root, 0) then (brgemm, 0) else src) \<and>
          shape (descs g' (InPort brgemm i)) = pshape_to_vdims ps \<and>
          layout (descs g' (InPort brgemm i)) =
            (if layout (descs g (InPort brgemm i)) = [] then cast_vector_size_t d
             else map (\<lambda>j. cast_vector_size_t d ! j) (layout (descs g (InPort brgemm i)))) \<and>
          (layout (descs g (InPort brgemm i)) \<noteq> [] \<longrightarrow>
             length (cast_vector_size_t d) = length (layout (descs g (InPort brgemm i))) \<and>
             (\<forall>j < length (layout (descs g (InPort brgemm i))).
                layout (descs g (InPort brgemm i)) ! j < length (cast_vector_size_t d))) \<and>
          (cast_vector_size_t d = [1, 0, 2] \<and> layout (descs g (InPort brgemm i)) = []
             \<longrightarrow> layout (descs g' (InPort brgemm i)) = [1, 0, 2]))))"
proof (rule conjI)
  show "wf_graph g \<and>
     (as_transpose g root = Some root \<longrightarrow>
        as_brgemm g brgemm = Some brgemm \<and>
        (\<exists>c d ps l. get_input_node_shared_ptr g root 1 = Inr c \<and> as_constant g c = Some d \<and>
           get_partial_shape g (root, 0) = Inr ps \<and>
           fuse_layouts (layout (descs g (OutPort brgemm 0))) (cast_vector_size_t d) = Inr l)) \<and>
     (\<forall>j v c d. input_value g brgemm j = Inr v \<and> is_supported_transpose g v = Inr True \<and>
        get_input_node_shared_ptr g (fst v) 1 = Inr c \<and> as_constant g c = Some d \<longrightarrow>
        (\<exists>l. fuse_layouts (cast_vector_size_t d) (layout (descs g (InPort brgemm j))) = Inr l)) \<and>
     (\<forall>h. \<exists>s. infer h brgemm = Inr s)
     \<longrightarrow> (\<exists>g'. callback infer g root = Inr (g', True))"
  proof (rule impI, elim conjE)
    assume wf: "wf_graph g"
      and out: "as_transpose g root = Some root \<longrightarrow>
        as_brgemm g brgemm = Some brgemm \<and>
        (\<exists>c d ps l. get_input_node_shared_ptr g root 1 = Inr c \<and> as_constant g c = Some d \<and>
           get_partial_shape g (root, 0) = Inr ps \<and>
           fuse_layouts (layout (descs g (OutPort brgemm 0))) (cast_vector_size_t d) = Inr l)"
      and in_ok: "\<forall>j v c d. input_value g brgemm j = Inr v \<and> is_supported_transpose g v = Inr True \<and>
        get_input_node_shared_ptr g (fst v) 1 = Inr c \<and> as_constant g c = Some d \<longrightarrow>
        (\<exists>l. fuse_layouts (cast_vector_size_t d) (layout (descs g (InPort brgemm j))) = Inr l)"
      and inf: "\<forall>h. \<exists>s. infer h brgemm = Inr s"
    from root show "\<exists>g'. callback infer g root = Inr (g', True)"
    proof
      assume brg: "as_brgemm g root = Some brgemm"
      then have rb: "root = brgemm" using as_brgemm_Some[of g root brgemm] by simp
      show ?thesis
        unfolding rb using wf brg[unfolded rb] in_ok inf by (rule callback_brgemm_succeeds)
    next
      assume "as_transpose g root = Some root \<and> get_input_node_shared_ptr g root 0 = Inr brgemm"
      then have rt1: "as_transpose g root = Some root"
        and b: "get_input_node_shared_ptr g root 0 = Inr brgemm" by simp_all
      from out rt1 obtain c d ps l where brg: "as_brgemm g brgemm = Some brgemm"
        and c: "get_input_node_shared_ptr g root 1 = Inr c" and d: "as_constant g c = Some d"
        and ps: "get_partial_shape g (root, 0) = Inr ps"
        and l: "fuse_layouts (layout (descs g (OutPort brgemm 0))) (cast_vector_size_t d) = Inr l"
        by blast
      show ?thesis using wf rt1 b brg c d ps l in_ok inf by (rule callback_transpose_succeeds)
    qed
  qed
next
  show "\<forall>g' changed i v.
       callback infer g root = Inr (g', changed) \<and>
       input_value g brgemm i = Inr v \<and> is_supported_transpose g v = Inr True \<longrightarrow>
       (if v = (root, 0)
        then input_value g' brgemm i = Inr (brgemm, 0) \<and>
             descs g' (InPort brgemm i) = descs g (InPort brgemm i)
        else (\<exists>c d src ps.
          get_input_node_shared_ptr g (fst v) 1 = Inr c \<and> as_constant g c = Some d \<and>
          cast_vector_size_t d \<noteq> [] \<and>
          input_value g (fst v) 0 = Inr src \<and>
          get_partial_shape g (if src = (root, 0) then (brgemm, 0) else src) = Inr ps \<and>
          input_value g' brgemm i = Inr (if src = (root, 0) then (brgemm, 0) else src) \<and>
          shape (descs g' (InPort brgemm i)) = pshape_to_vdims ps \<and>
          layout (descs g' (InPort brgemm i)) =
            (if layout (descs g (InPort brgemm i)) = [] then cast_vector_size_t d
             else map (\<lambda>j. cast_vector_size_t d ! j) (layout (descs g (InPort brgemm i)))) \<and>
          (layout (descs g (InPort brgemm i)) \<noteq> [] \<longrightarrow>
             length (cast_vector_size_t d) = length (layout (descs g (InPort brgemm i))) \<and>
             (\<forall>j < length (layout (descs g (InPort brgemm i))).
                layout (descs g (InPort brgemm i)) ! j < length (cast_vector_size_t d))) \<and>
          (cast_vector_size_t d = [1, 0, 2] \<and> layout (descs g (InPort brgemm i)) = []
             \<longrightarrow> layout (descs g' (InPort brgemm i)) = [1, 0, 2])))"
  proof (intro allI impI, elim conjE)
    fix g' changed i v
    assume cb: "callback infer g root = Inr (g', changed)"
      and v: "input_value g brgemm i = Inr v" and sup: "is_supported_transpose g v = Inr True"
    show "if v = (root, 0)
        then input_value g' brgemm i = Inr (brgemm, 0) \<and>
             descs g' (InPort brgemm i) = descs g (InPort brgemm i)
        else (\<exists>c d src ps.
          get_input_node_shared_ptr g (fst v) 1 = Inr c \<and> as_constant g c = Some d \<and>
          cast_vector_size_t d \<noteq> [] \<and>
          input_value g (fst v) 0 = Inr src \<and>
          get_partial_shape g (if src = (root, 0) then (brgemm, 0) else src) = Inr ps \<and>
          input_value g' brgemm i = Inr (if src = (root, 0) then (brgemm, 0) else src) \<and>
          shape (descs g' (InPort brgemm i)) = pshape_to_vdims ps \<and>
          layout (descs g' (InPort brgemm i)) =
            (if layout (descs g (InPort brgemm i)) = [] then cast_vector_size_t d
             else map (\<lambda>j. cast_vector_size_t d ! j) (layout (descs g (InPort brgemm i)))) \<and>
          (layout (descs g (InPort brgemm i)) \<noteq> [] \<longrightarrow>
             length (cast_vector_size_t d) = length (layout (descs g (InPort brgemm i))) \<and>
             (\<forall>j < length (layout (descs g (InPort brgemm i))).
                layout (descs g (InPort brgemm i)) ! j < length (cast_vector_size_t d))) \<and>
          (cast_vector_size_t d = [1, 0, 2] \<and> layout (descs g (InPort brgemm i)) = []
             \<longrightarrow> layout (descs g' (InPort brgemm i)) = [1, 0, 2]))"
    proof (cases "v = (root, 0)")
      case True
      have "input_value g' brgemm i = Inr (brgemm, 0) \<and>
            descs g' (InPort brgemm i) = descs g (InPort brgemm i)"
        using root
      proof
        assume brg: "as_brgemm g root = Some brgemm"
        then have rb: "root = brgemm" using as_brgemm_Some[of g root brgemm] by simp
        from is_supported_transpose_brgemm[OF brg[unfolded rb], of 0] sup True rb
        show ?thesis by simp
      next
        assume "as_transpose g root = Some root \<and> get_input_node_shared_ptr g root 0 = Inr brgemm"
        then have rt1: "as_transpose g root = Some root"
          and b: "get_input_node_shared_ptr g root 0 = Inr brgemm" by simp_all
        show ?thesis using cb rt1 b v[unfolded True] by (rule callback_transpose_self_input)
      qed
      with True show ?thesis by simp
    next
      case False
      from callback_inputs_post[OF cb root v sup False] obtain c d src ps where
        f: "get_input_node_shared_ptr g (fst v) 1 = Inr c" "as_constant g c = Some d"
          "cast_vector_size_t d \<noteq> []"
          "input_value g (fst v) 0 = Inr src"
          "get_partial_shape g (if src = (root, 0) then (brgemm, 0) else src) = Inr ps"
          "input_value g' brgemm i = Inr (if src = (root, 0) then (brgemm, 0) else src)"
          "shape (descs g' (InPort brgemm i)) = pshape_to_vdims ps"
          "layout (descs g' (InPort brgemm i)) =
            (if layout (descs g (InPort brgemm i)) = [] then cast_vector_size_t d
             else map (\<lambda>j. cast_vector_size_t d ! j) (layout (descs g (InPort brgemm i))))"
          "layout (descs g (InPort brgemm i)) \<noteq> [] \<longrightarrow>
             length (cast_vector_size_t d) = length (layout (descs g (InPort brgemm i))) \<and>
             (\<forall>j < length (layout (descs g (InPort brgemm i))).
                layout (descs g (InPort brgemm i)) ! j < length (cast_vector_size_t d))"
        by blast
      have ex: "cast_vector_size_t d = [1, 0, 2] \<and> layout (descs g (InPort brgemm i)) = []
             \<longrightarrow> layout (descs g' (InPort brgemm i)) = [1, 0, 2]"
        using f(8) by simp
      have "\<exists>c d src ps.
          get_input_node_shared_ptr g (fst v) 1 = Inr c \<and> as_constant g c = Some d \<and>
          cast_vector_size_t d \<noteq> [] \<and>
          input_value g (fst v) 0 = Inr src \<and>
          get_partial_shape g (if src = (root, 0) then (brgemm, 0) else src) = Inr ps \<and>
          input_value g' brgemm i = Inr (if src = (root, 0) then (brgemm, 0) else src) \<and>
          shape (descs g' (InPort brgemm i)) = pshape_to_vdims ps \<and>
          layout (descs g' (InPort brgemm i)) =
            (if layout (descs g (InPort brgemm i)) = [] then cast_vector_size_t d
             else map (\<lambda>j. cast_vector_size_t d ! j) (layout (descs g (InPort brgemm i)))) \<and>
          (layout (descs g (InPort brgemm i)) \<noteq> [] \<longrightarrow>
             length (cast_vector_size_t d) = length (layout (descs g (InPort brgemm i))) \<and>
             (\<forall>j < length (layout (descs g (InPort brgemm i))).
                layout (descs g (InPort brgemm i)) ! j < length (cast_vector_size_t d))) \<and>
          (cast_vector_size_t d = [1, 0, 2] \<and> layout (descs g (InPort brgemm i)) = []
             \<longrightarrow> layout (descs g' (InPort brgemm i)) = [1, 0, 2])"
        apply (rule exI[of _ c], rule exI[of _ d], rule exI[of _ src], rule exI[of _ ps])
        apply (intro conjI)
        apply (rule f ex)+
        done
      with False show ?thesis by (simp only: if_False)
    qed
  qed
qed

theorem callback_input_fusion_witness:
  "as_brgemm g_inputs_prior 6 = Some 6 \<and> wf_graph g_inputs_prior \<and>
   input_value g_inputs_prior 6 0 = Inr (2, 0) \<and>
   is_supported_transpose g_inputs_prior (2, 0) = Inr True \<and>
   layout (descs g_inputs_prior (InPort 6 0)) = [2, 0, 1] \<and>
   input_value g_inputs_prior 6 1 = Inr (5, 0) \<and>
   is_supported_transpose g_inputs_prior (5, 0) = Inr True \<and>
   layout (descs g_inputs_prior (InPort 6 1)) = [] \<and>
   callback keep_shapes g_inputs_prior 6 = Inr (g_inputs_prior_fused, True) \<and>
   input_value g_inputs_prior_fused 6 0 = Inr (0, 0) \<and>
   shape (descs g_inputs_prior_fused (InPort 6 0)) = [4, 8, 16] \<and>
   layout (descs g_inputs_prior_fused (InPort 6 0)) = [2, 1, 0] \<and>
   input_value g_inputs_prior_fused 6 1 = Inr (3, 0) \<and>
   shape (descs g_inputs_prior_fused (InPort 6 1)) = [16, 8, 32] \<and>
   layout (descs g_inputs_prior_fused (InPort 6 1)) = [1, 0, 2] \<and>
   as_transpose g_both 6 = Some 6 \<and> get_input_node_shared_ptr g_both 6 0 = Inr 4 \<and>
   wf_graph g_both \<and>
   input_value g_both 4 0 = Inr (2, 0) \<and> is_supported_transpose g_both (2, 0) = Inr True \<and>
   layout (descs g_both (InPort 4 0)) = [2, 0, 1] \<and>
   callback keep_shapes g_both 6 = Inr (g_both_fused, True) \<and>
   input_value g_both_fused 4 0 = Inr (0, 0) \<and>
   shape (descs g_both_fused (InPort 4 0)) = [4, 8, 32] \<and>
   layout (descs g_both_fused (InPort 4 0)) = [2, 1, 0]"
proof -
  have c: "cast_vector_size_t [1, 0, 2] = [1, 0, 2]" by (simp add: cast_vector_size_t_def)
  have cmp: "fuse_layouts [1, 0, 2] [2, 0, 1] = Inr [2, 1, 0]" by (simp add: fuse_layouts_def)
  (* a Brgemm root: both inputs transposed, input 0 with a layout recorded before *)
  have brg: "as_brgemm g_inputs_prior 6 = Some 6" by (simp add: g_inputs_prior_def eval_defs)
  have wf: "wf_graph g_inputs_prior" by (simp add: g_inputs_prior_def wf_graph_def node_at_def)
  have nt: "as_transpose g_inputs_prior 6 = None" by (simp add: g_inputs_prior_def eval_defs)
  have v0: "input_value g_inputs_prior 6 0 = Inr (2, 0)"
    and s0: "is_supported_transpose g_inputs_prior (2, 0) = Inr True"
    and v1: "input_value g_inputs_prior 6 1 = Inr (5, 0)"
    and s1: "is_supported_transpose g_inputs_prior (5, 0) = Inr True"
    by (simp_all add: g_inputs_prior_def eval_defs)
  have e0: "get_input_node_shared_ptr g_inputs_prior 2 1 = Inr 1"
    "as_constant g_inputs_prior 1 = Some [1, 0, 2]"
    "input_value g_inputs_prior 2 0 = Inr (0, 0)"
    "get_partial_shape g_inputs_prior (0, 0) = Inr [4, 8, 16]"
    "layout (descs g_inputs_prior (InPort 6 0)) = [2, 0, 1]"
    by (simp_all add: g_inputs_prior_def eval_defs)
  have e1: "get_input_node_shared_ptr g_inputs_prior 5 1 = Inr 4"
    "as_constant g_inputs_prior 4 = Some [1, 0, 2]"
    "input_value g_inputs_prior 5 0 = Inr (3, 0)"
    "get_partial_shape g_inputs_prior (3, 0) = Inr [16, 8, 32]"
    "layout (descs g_inputs_prior (InPort 6 1)) = []"
    by (simp_all add: g_inputs_prior_def eval_defs)
  have lay: "\<forall>j v c d. input_value g_inputs_prior 6 j = Inr v \<and>
        is_supported_transpose g_inputs_prior v = Inr True \<and>
        get_input_node_shared_ptr g_inputs_prior (fst v) 1 = Inr c \<and>
        as_constant g_inputs_prior c = Some d \<longrightarrow>
        (\<exists>l. fuse_layouts (cast_vector_size_t d) (layout (descs g_inputs_prior (InPort 6 j))) = Inr l)"
  proof (intro allI impI, elim conjE)
    fix j v c' d
    assume a: "input_value g_inputs_prior 6 j = Inr v"
      "get_input_node_shared_ptr g_inputs_prior (fst v) 1 = Inr c'"
      "as_constant g_inputs_prior c' = Some d"
    from a(1) have "j < 2" by (simp add: g_inputs_prior_def input_value_def node_at_def split: if_splits)
    then have "j = 0 \<or> j = 1" by auto
    then show "\<exists>l. fuse_layouts (cast_vector_size_t d) (layout (descs g_inputs_prior (InPort 6 j))) = Inr l"
    proof
      assume j: "j = 0"
      with a(1) v0 have "v = (2, 0)" by simp
      with a(2) e0(1) have "c' = 1" by simp
      with a(3) e0(2) have "d = [1, 0, 2]" by simp
      then show ?thesis using j e0(5) c cmp by simp
    next
      assume j: "j = 1"
      then show ?thesis using e1(5) by (simp add: fuse_layouts_empty_right)
    qed
  qed
  have inf: "\<forall>h. \<exists>s. keep_shapes h n = Inr s" for n by (simp add: keep_shapes_def)
  note cif = callback_input_fusion[of g_inputs_prior 6 6 keep_shapes, OF disjI1, OF brg]
  have out0: "as_transpose g_inputs_prior 6 = Some 6 \<longrightarrow>
        as_brgemm g_inputs_prior 6 = Some 6 \<and>
        (\<exists>c d ps l. get_input_node_shared_ptr g_inputs_prior 6 1 = Inr c \<and>
           as_constant g_inputs_prior c = Some d \<and>
           get_partial_shape g_inputs_prior (6, 0) = Inr ps \<and>
           fuse_layouts (layout (descs g_inputs_prior (OutPort 6 0))) (cast_vector_size_t d) = Inr l)"
    using nt by simp
  have "\<exists>g'. callback keep_shapes g_inputs_prior 6 = Inr (g', True)"
    by (rule cif[THEN conjunct1, rule_format]) (intro conjI wf out0 lay inf)
  then obtain g' where cb': "callback keep_shapes g_inputs_prior 6 = Inr (g', True)" ..
  have "callback keep_shapes g_inputs_prior 6 = Inr (g_inputs_prior_fused, True)"
    by (simp add: g_inputs_prior_def g_inputs_prior_fused_def eval_defs)
  with cb' have cb: "callback keep_shapes g_inputs_prior 6 = Inr (g_inputs_prior_fused, True)"
    by simp
  have r0: "input_value g_inputs_prior_fused 6 0 = Inr (0, 0) \<and>
     shape (descs g_inputs_prior_fused (InPort 6 0)) = [4, 8, 16] \<and>
     layout (descs g_inputs_prior_fused (InPort 6 0)) = [2, 1, 0]"
    using cif[THEN conjunct2, rule_format, of g_inputs_prior_fused True 0 "(2, 0)"] cb v0 s0 e0 c
    by (auto simp: pshape_to_vdims_def)
  have r1: "input_value g_inputs_prior_fused 6 1 = Inr (3, 0) \<and>
     shape (descs g_inputs_prior_fused (InPort 6 1)) = [16, 8, 32] \<and>
     layout (descs g_inputs_prior_fused (InPort 6 1)) = [1, 0, 2]"
    using cif[THEN conjunct2, rule_format, of g_inputs_prior_fused True 1 "(5, 0)"] cb v1 s1 e1 c
    by (auto simp: pshape_to_vdims_def)
  (* a Transpose root: the loop runs after the output branch *)
  have rt: "as_transpose g_both 6 = Some 6" and b: "get_input_node_shared_ptr g_both 6 0 = Inr 4"
    and brg4: "as_brgemm g_both 4 = Some 4"
    by (simp_all add: g_both_def eval_defs)
  have wfb: "wf_graph g_both" by (simp add: g_both_def wf_graph_def node_at_def)
  have w0: "input_value g_both 4 0 = Inr (2, 0)"
    and t0: "is_supported_transpose g_both (2, 0) = Inr True"
    and w1: "input_value g_both 4 1 = Inr (3, 0)"
    and t1: "is_supported_transpose g_both (3, 0) = Inr False"
    by (simp_all add: g_both_def eval_defs)
  have f0: "get_input_node_shared_ptr g_both 2 1 = Inr 1"
    "as_constant g_both 1 = Some [1, 0, 2]"
    "input_value g_both 2 0 = Inr (0, 0)"
    "get_partial_shape g_both (0, 0) = Inr [4, 8, 32]"
    "layout (descs g_both (InPort 4 0)) = [2, 0, 1]"
    by (simp_all add: g_both_def eval_defs)
  have o: "get_input_node_shared_ptr g_both 6 1 = Inr 5" "as_constant g_both 5 = Some [1, 0, 2]"
    "get_partial_shape g_both (6, 0) = Inr [4, 8, 16]"
    "layout (descs g_both (OutPort 4 0)) = [2, 0, 1]"
    by (simp_all add: g_both_def eval_defs)
  have cmo: "fuse_layouts [2, 0, 1] [1, 0, 2] = Inr [0, 2, 1]" by (simp add: fuse_layouts_def)
  have out: "as_transpose g_both 6 = Some 6 \<longrightarrow>
        as_brgemm g_both 4 = Some 4 \<and>
        (\<exists>c d ps l. get_input_node_shared_ptr g_both 6 1 = Inr c \<and> as_constant g_both c = Some d \<and>
           get_partial_shape g_both (6, 0) = Inr ps \<and>
           fuse_layouts (layout (descs g_both (OutPort 4 0))) (cast_vector_size_t d) = Inr l)"
    using brg4 o c cmo by simp
  have layb: "\<forall>j v c d. input_value g_both 4 j = Inr v \<and>
        is_supported_transpose g_both v = Inr True \<and>
        get_input_node_shared_ptr g_both (fst v) 1 = Inr c \<and>
        as_constant g_both c = Some d \<longrightarrow>
        (\<exists>l. fuse_layouts (cast_vector_size_t d) (layout (descs g_both (InPort 4 j))) = Inr l)"
  proof (intro allI impI, elim conjE)
    fix j v c' d
    assume a: "input_value g_both 4 j = Inr v" "is_supported_transpose g_both v = Inr True"
      "get_input_node_shared_ptr g_both (fst v) 1 = Inr c'"
      "as_constant g_both c' = Some d"
    from a(1) have "j < 2" by (simp add: g_both_def input_value_def node_at_def split: if_splits)
    then have "j = 0 \<or> j = 1" by auto
    then show "\<exists>l. fuse_layouts (cast_vector_size_t d) (layout (descs g_both (InPort 4 j))) = Inr l"
    proof
      assume j: "j = 0"
      with a(1) w0 have "v = (2, 0)" by simp
      with a(3) f0(1) have "c' = 1" by simp
      with a(4) f0(2) have "d = [1, 0, 2]" by simp
      then show ?thesis using j f0(5) c cmp by simp
    next
      assume j: "j = 1"
      with a w1 t1 show ?thesis by simp
    qed
  qed
  note cifb = callback_input_fusion[of g_both 6 4 keep_shapes, OF disjI2, OF conjI, OF rt b]
  have "\<exists>g'. callback keep_shapes g_both 6 = Inr (g', True)"
    by (rule cifb[THEN conjunct1, rule_format]) (intro conjI wfb out layb inf)
  then obtain g'' where cbb': "callback keep_shapes g_both 6 = Inr (g'', True)" ..
  have "callback keep_shapes g_both 6 = Inr (g_both_fused, True)"
    by (simp add: g_both_def g_both_fused_def eval_defs)
  with cbb' have cbb: "callback keep_shapes g_both 6 = Inr (g_both_fused, True)" by simp
  have rb: "input_value g_both_fused 4 0 = Inr (0, 0) \<and>
     shape (descs g_both_fused (InPort 4 0)) = [4, 8, 32] \<and>
     layout (descs g_both_fused (InPort 4 0)) = [2, 1, 0]"
    using cifb[THEN conjunct2, rule_format, of g_both_fused True 0 "(2, 0)"] cbb w0 t0 f0 c
    by (auto simp: pshape_to_vdims_def)
  show ?thesis
    by (intro conjI brg wf v0 s0 e0(5) v1 s1 e1(5) cb r0[THEN conjunct1]
        r0[THEN conjunct2, THEN conjunct1] r0[THEN conjunct2, THEN conjunct2]
        r1[THEN conjunct1] r1[THEN conjunct2, THEN conjunct1] r1[THEN conjunct2, THEN conjunct2]
        rt b wfb w0 t0 f0(5) cbb rb[THEN conjunct1]
        rb[THEN conjunct2, THEN conjunct1] rb[THEN conjunct2, THEN conjunct2])
qed

text \<open>
  Claim C2. Let the match root be a Transpose. On a well-formed graph in which input 0 of
  the root is produced by a Brgemm, input 1 by a Constant, and the layout compositions and
  the revalidation succeed, the callback returns. Whenever it returns, the descriptor of
  output 0 of the Brgemm has the output shape of the transpose and, as layout, the
  composition of the layout recorded before (outer) with the order of the transpose
  (inner): the list whose entry \<open>j\<close> is \<open>layout ! (order ! j)\<close>, every entry of the order
  being an index of the layout, and the order itself when no layout was recorded. Every
  input port that consumed the output of the transpose consumes output 0 of the Brgemm,
  and the output of the transpose has no consumer left; in a well-formed graph, where the
  transpose has its one output, no input port of any node refers to the transpose any
  more: the node is detached from the graph (lines 100-102 are all the callback does to
  detach it). With no layout recorded, order \<open>[0, 2, 1]\<close> and transpose output shape
  \<open>[8, 16, 4]\<close> the layout is \<open>[0, 2, 1]\<close> and the shape \<open>[8, 16, 4]\<close>. The callback itself
  does not test the order: that is done by the pattern of lines 62-66.
\<close>
theorem callback_output_fusion:
  assumes rt: "as_transpose g root = Some root"
  shows
   "(wf_graph g \<and>
     (\<exists>b c d ps l.
        get_input_node_shared_ptr g root 0 = Inr b \<and> as_brgemm g b = Some b \<and>
        get_input_node_shared_ptr g root 1 = Inr c \<and> as_constant g c = Some d \<and>
        get_partial_shape g (root, 0) = Inr ps \<and>
        fuse_layouts (layout (descs g (OutPort b 0))) (cast_vector_size_t d) = Inr l \<and>
        (\<forall>j v c d. input_value g b j = Inr v \<and> is_supported_transpose g v = Inr True \<and>
           get_input_node_shared_ptr g (fst v) 1 = Inr c \<and> as_constant g c = Some d \<longrightarrow>
           (\<exists>l. fuse_layouts (cast_vector_size_t d) (layout (descs g (InPort b j))) = Inr l)) \<and>
        (\<forall>h. \<exists>s. infer h b = Inr s))
     \<longrightarrow> (\<exists>g'. callback infer g root = Inr (g', True))) \<and>
    (\<forall>g' changed.
       callback infer g root = Inr (g', changed) \<longrightarrow>
       (\<exists>b c d ps.
          get_input_node_shared_ptr g root 0 = Inr b \<and> as_brgemm g b = Some b \<and>
          get_input_node_shared_ptr g root 1 = Inr c \<and> as_constant g c = Some d \<and>
          get_partial_shape g (root, 0) = Inr ps \<and>
          shape (descs g' (OutPort b 0)) = pshape_to_vdims ps \<and>
          layout (descs g' (OutPort b 0)) =
            (if layout (descs g (OutPort b 0)) = [] then cast_vector_size_t d
             else if cast_vector_size_t d = [] then layout (descs g (OutPort b 0))
             else map (\<lambda>j. layout (descs g (OutPort b 0)) ! j) (cast_vector_size_t d)) \<and>
          (layout (descs g (OutPort b 0)) \<noteq> [] \<and> cast_vector_size_t d \<noteq> [] \<longrightarrow>
             length (layout (descs g (OutPort b 0))) = length (cast_vector_size_t d) \<and>
             (\<forall>j < length (cast_vector_size_t d).
                cast_vector_size_t d ! j < length (layout (descs g (OutPort b 0))))) \<and>
          (\<forall>inp \<in> set (get_target_inputs g (root, 0)).
             input_value g' (fst inp) (snd inp) = Inr (b, 0)) \<and>
          get_target_inputs g' (root, 0) = [] \<and>
          (wf_graph g \<and> length (out_shapes (nodes g ! root)) = 1 \<longrightarrow>
             (\<forall>n k s. input_value g' n k = Inr s \<longrightarrow> fst s \<noteq> root)) \<and>
          (layout (descs g (OutPort b 0)) = [] \<and> cast_vector_size_t d = [0, 2, 1] \<and>
           ps = [8, 16, 4]
             \<longrightarrow> layout (descs g' (OutPort b 0)) = [0, 2, 1] \<and>
                 shape (descs g' (OutPort b 0)) = [8, 16, 4])))"
proof (rule conjI)
  show "wf_graph g \<and>
     (\<exists>b c d ps l.
        get_input_node_shared_ptr g root 0 = Inr b \<and> as_brgemm g b = Some b \<and>
        get_input_node_shared_ptr g root 1 = Inr c \<and> as_constant g c = Some d \<and>
        get_partial_shape g (root, 0) = Inr ps \<and>
        fuse_layouts (layout (descs g (OutPort b 0))) (cast_vector_size_t d) = Inr l \<and>
        (\<forall>j v c d. input_value g b j = Inr v \<and> is_supported_transpose g v = Inr True \<and>
           get_input_node_shared_ptr g (fst v) 1 = Inr c \<and> as_constant g c = Some d \<longrightarrow>
           (\<exists>l. fuse_layouts (cast_vector_size_t d) (layout (descs g (InPort b j))) = Inr l)) \<and>
        (\<forall>h. \<exists>s. infer h b = Inr s))
     \<longrightarrow> (\<exists>g'. callback infer g root = Inr (g', True))"
  proof (rule impI, elim conjE exE)
    fix b c d ps l
    assume wf: "wf_graph g"
      and b: "get_input_node_shared_ptr g root 0 = Inr b" and brg: "as_brgemm g b = Some b"
      and c: "get_input_node_shared_ptr g root 1 = Inr c" and d: "as_constant g c = Some d"
      and ps: "get_partial_shape g (root, 0) = Inr ps"
      and l: "fuse_layouts (layout (descs g (OutPort b 0))) (cast_vector_size_t d) = Inr l"
      and in_ok: "\<forall>j v c d. input_value g b j = Inr v \<and> is_supported_transpose g v = Inr True \<and>
           get_input_node_shared_ptr g (fst v) 1 = Inr c \<and> as_constant g c = Some d \<longrightarrow>
           (\<exists>l. fuse_layouts (cast_vector_size_t d) (layout (descs g (InPort b j))) = Inr l)"
      and inf: "\<forall>h. \<exists>s. infer h b = Inr s"
    show "\<exists>g'. callback infer g root = Inr (g', True)"
      using wf rt b brg c d ps l in_ok inf by (rule callback_transpose_succeeds)
  qed
next
  show "\<forall>g' changed.
       callback infer g root = Inr (g', changed) \<longrightarrow>
       (\<exists>b c d ps.
          get_input_node_shared_ptr g root 0 = Inr b \<and> as_brgemm g b = Some b \<and>
          get_input_node_shared_ptr g root 1 = Inr c \<and> as_constant g c = Some d \<and>
          get_partial_shape g (root, 0) = Inr ps \<and>
          shape (descs g' (OutPort b 0)) = pshape_to_vdims ps \<and>
          layout (descs g' (OutPort b 0)) =
            (if layout (descs g (OutPort b 0)) = [] then cast_vector_size_t d
             else if cast_vector_size_t d = [] then layout (descs g (OutPort b 0))
             else map (\<lambda>j. layout (descs g (OutPort b 0)) ! j) (cast_vector_size_t d)) \<and>
          (layout (descs g (OutPort b 0)) \<noteq> [] \<and> cast_vector_size_t d \<noteq> [] \<longrightarrow>
             length (layout (descs g (OutPort b 0))) = length (cast_vector_size_t d) \<and>
             (\<forall>j < length (cast_vector_size_t d).
                cast_vector_size_t d ! j < length (layout (descs g (OutPort b 0))))) \<and>
          (\<forall>inp \<in> set (get_target_inputs g (root, 0)).
             input_value g' (fst inp) (snd inp) = Inr (b, 0)) \<and>
          get_target_inputs g' (root, 0) = [] \<and>
          (wf_graph g \<and> length (out_shapes (nodes g ! root)) = 1 \<longrightarrow>
             (\<forall>n k s. input_value g' n k = Inr s \<longrightarrow> fst s \<noteq> root)) \<and>
          (layout (descs g (OutPort b 0)) = [] \<and> cast_vector_size_t d = [0, 2, 1] \<and>
           ps = [8, 16, 4]
             \<longrightarrow> layout (descs g' (OutPort b 0)) = [0, 2, 1] \<and>
                 shape (descs g' (OutPort b 0)) = [8, 16, 4]))"
  proof (intro allI impI)
    fix g' changed
    assume cb: "callback infer g root = Inr (g', changed)"
    from callback_transpose_post[OF cb rt] obtain b c d ps l where
      f: "get_input_node_shared_ptr g root 0 = Inr b" "as_brgemm g b = Some b"
        "get_input_node_shared_ptr g root 1 = Inr c" "as_constant g c = Some d"
        "get_partial_shape g (root, 0) = Inr ps"
        "shape (descs g' (OutPort b 0)) = pshape_to_vdims ps"
      and l: "fuse_layouts (layout (descs g (OutPort b 0))) (cast_vector_size_t d) = Inr l"
      and la: "layout (descs g' (OutPort b 0)) = l"
      and t: "\<forall>inp \<in> set (get_target_inputs g (root, 0)).
                input_value g' (fst inp) (snd inp) = Inr (b, 0)"
        "get_target_inputs g' (root, 0) = []"
      by blast
    note e = fuse_layouts_Inr[OF l]
    have e1: "layout (descs g' (OutPort b 0)) =
            (if layout (descs g (OutPort b 0)) = [] then cast_vector_size_t d
             else if cast_vector_size_t d = [] then layout (descs g (OutPort b 0))
             else map (\<lambda>j. layout (descs g (OutPort b 0)) ! j) (cast_vector_size_t d))"
      using e[THEN conjunct1] la by simp
    have e2: "layout (descs g (OutPort b 0)) \<noteq> [] \<and> cast_vector_size_t d \<noteq> [] \<longrightarrow>
             length (layout (descs g (OutPort b 0))) = length (cast_vector_size_t d) \<and>
             (\<forall>j < length (cast_vector_size_t d).
                cast_vector_size_t d ! j < length (layout (descs g (OutPort b 0))))"
      using e[THEN conjunct2] .
    have det: "wf_graph g \<and> length (out_shapes (nodes g ! root)) = 1 \<longrightarrow>
             (\<forall>n k s. input_value g' n k = Inr s \<longrightarrow> fst s \<noteq> root)"
      using callback_transpose_detached[OF cb rt] by blast
    have ex: "layout (descs g (OutPort b 0)) = [] \<and> cast_vector_size_t d = [0, 2, 1] \<and>
           ps = [8, 16, 4]
             \<longrightarrow> layout (descs g' (OutPort b 0)) = [0, 2, 1] \<and>
                 shape (descs g' (OutPort b 0)) = [8, 16, 4]"
      using e1 f(6) by (simp add: pshape_to_vdims_def)
    show "\<exists>b c d ps.
          get_input_node_shared_ptr g root 0 = Inr b \<and> as_brgemm g b = Some b \<and>
          get_input_node_shared_ptr g root 1 = Inr c \<and> as_constant g c = Some d \<and>
          get_partial_shape g (root, 0) = Inr ps \<and>
          shape (descs g' (OutPort b 0)) = pshape_to_vdims ps \<and>
          layout (descs g' (OutPort b 0)) =
            (if layout (descs g (OutPort b 0)) = [] then cast_vector_size_t d
             else if cast_vector_size_t d = [] then layout (descs g (OutPort b 0))
             else map (\<lambda>j. layout (descs g (OutPort b 0)) ! j) (cast_vector_size_t d)) \<and>
          (layout (descs g (OutPort b 0)) \<noteq> [] \<and> cast_vector_size_t d \<noteq> [] \<longrightarrow>
             length (layout (descs g (OutPort b 0))) = length (cast_vector_size_t d) \<and>
             (\<forall>j < length (cast_vector_size_t d).
                cast_vector_size_t d ! j < length (layout (descs g (OutPort b 0))))) \<and>
          (\<forall>inp \<in> set (get_target_inputs g (root, 0)).
             input_value g' (fst inp) (snd inp) = Inr (b, 0)) \<and>
          get_target_inputs g' (root, 0) = [] \<and>
          (wf_graph g \<and> length (out_shapes (nodes g ! root)) = 1 \<longrightarrow>
             (\<forall>n k s. input_value g' n k = Inr s \<longrightarrow> fst s \<noteq> root)) \<and>
          (layout (descs g (OutPort b 0)) = [] \<and> cast_vector_size_t d = [0, 2, 1] \<and>
           ps = [8, 16, 4]
             \<longrightarrow> layout (descs g' (OutPort b 0)) = [0, 2, 1] \<and>
                 shape (descs g' (OutPort b 0)) = [8, 16, 4])"
      apply (rule exI[of _ b], rule exI[of _ c], rule exI[of _ d], rule exI[of _ ps])
      apply (intro conjI)
      apply (rule f e1 e2 t det ex)+
      done
  qed
qed

theorem callback_output_fusion_witness:
  "as_transpose g_output 4 = Some 4 \<and> wf_graph g_output \<and>
   get_input_node_shared_ptr g_output 4 0 = Inr 2 \<and> as_brgemm g_output 2 = Some 2 \<and>
   as_constant g_output 3 = Some [0, 2, 1] \<and>
   shape (descs g_output (OutPort 2 0)) = [8, 4, 16] \<and>
   layout (descs g_output (OutPort 2 0)) = [] \<and>
   get_target_inputs g_output (4, 0) = [(5, 0), (6, 0)] \<and>
   callback keep_shapes g_output 4 = Inr (g_output_result, True) \<and>
   shape (descs g_output_result (OutPort 2 0)) = [8, 16, 4] \<and>
   layout (descs g_output_result (OutPort 2 0)) = [0, 2, 1] \<and>
   input_value g_output_result 5 0 = Inr (2, 0) \<and>
   input_value g_output_result 6 0 = Inr (2, 0) \<and>
   get_target_inputs g_output_result (4, 0) = [] \<and>
   \<not> (\<exists>n k s. input_value g_output_result n k = Inr s \<and> fst s = 4) \<and>
   as_transpose g_both 6 = Some 6 \<and> is_supported_transpose g_both (6, 0) = Inr True \<and>
   wf_graph g_both \<and>
   get_input_node_shared_ptr g_both 6 0 = Inr 4 \<and> as_brgemm g_both 4 = Some 4 \<and>
   as_constant g_both 5 = Some [1, 0, 2] \<and>
   shape (descs g_both (OutPort 4 0)) = [8, 4, 16] \<and>
   layout (descs g_both (OutPort 4 0)) = [2, 0, 1] \<and>
   get_target_inputs g_both (6, 0) = [(7, 0)] \<and>
   callback keep_shapes g_both 6 = Inr (g_both_fused, True) \<and>
   shape (descs g_both_fused (OutPort 4 0)) = [4, 8, 16] \<and>
   layout (descs g_both_fused (OutPort 4 0)) = [0, 2, 1] \<and>
   input_value g_both_fused 7 0 = Inr (4, 0) \<and>
   get_target_inputs g_both_fused (6, 0) = [] \<and>
   \<not> (\<exists>n k s. input_value g_both_fused n k = Inr s \<and> fst s = 6)"
proof -
  have inf: "\<forall>h. \<exists>s. keep_shapes h n = Inr s" for n by (simp add: keep_shapes_def)
  (* the instance of the claim: no layout recorded, order [0, 2, 1] *)
  have rt: "as_transpose g_output 4 = Some 4" by (simp add: g_output_def eval_defs)
  have wf: "wf_graph g_output" by (simp add: g_output_def wf_graph_def node_at_def)
  have one: "length (out_shapes (nodes g_output ! 4)) = 1" by (simp add: g_output_def)
  have ti: "get_target_inputs g_output (4, 0) = [(5, 0), (6, 0)]"
    by (simp add: g_output_def get_target_inputs_def)
  have e: "get_input_node_shared_ptr g_output 4 0 = Inr 2" "as_brgemm g_output 2 = Some 2"
    "get_input_node_shared_ptr g_output 4 1 = Inr 3"
    "as_constant g_output 3 = Some [0, 2, 1]"
    "get_partial_shape g_output (4, 0) = Inr [8, 16, 4]"
    "layout (descs g_output (OutPort 2 0)) = []"
    "shape (descs g_output (OutPort 2 0)) = [8, 4, 16]"
    by (simp_all add: g_output_def eval_defs)
  have c: "cast_vector_size_t [0, 2, 1] = [0, 2, 1]" by (simp add: cast_vector_size_t_def)
  have l: "fuse_layouts (layout (descs g_output (OutPort 2 0))) (cast_vector_size_t [0, 2, 1]) =
           Inr [0, 2, 1]"
    by (simp add: e(6) c fuse_layouts_empty_left)
  have ns: "input_value g_output 2 j = Inr v \<Longrightarrow> is_supported_transpose g_output v = Inr False"
    for j v
  proof -
    assume a: "input_value g_output 2 j = Inr v"
    then have "j < 2" by (simp add: g_output_def input_value_def node_at_def split: if_splits)
    then have "j = 0 \<or> j = 1" by auto
    then have "v = (0, 0) \<or> v = (1, 0)"
      using a by (auto simp: g_output_def input_value_def node_at_def)
    then show ?thesis by (auto simp: g_output_def eval_defs)
  qed
  have in_ok: "\<forall>j v c d. input_value g_output 2 j = Inr v \<and>
        is_supported_transpose g_output v = Inr True \<and>
        get_input_node_shared_ptr g_output (fst v) 1 = Inr c \<and> as_constant g_output c = Some d \<longrightarrow>
        (\<exists>l. fuse_layouts (cast_vector_size_t d) (layout (descs g_output (InPort 2 j))) = Inr l)"
    using ns by fastforce
  note cof = callback_output_fusion[OF rt, of keep_shapes]
  have "\<exists>g'. callback keep_shapes g_output 4 = Inr (g', True)"
    apply (rule cof[THEN conjunct1, rule_format])
    apply (rule conjI[OF wf])
    apply (rule exI[of _ 2], rule exI[of _ 3], rule exI[of _ "[0, 2, 1]"],
           rule exI[of _ "[8, 16, 4]"], rule exI[of _ "[0, 2, 1]"])
    apply (intro conjI e(1-5) l in_ok inf)
    done
  then obtain g' where cb': "callback keep_shapes g_output 4 = Inr (g', True)" ..
  have "callback keep_shapes g_output 4 = Inr (g_output_result, True)"
    by (simp add: g_output_def g_output_result_def eval_defs)
  with cb' have cb: "callback keep_shapes g_output 4 = Inr (g_output_result, True)" by simp
  from cof[THEN conjunct2, rule_format, OF cb] obtain b c' d ps where
    f: "get_input_node_shared_ptr g_output 4 0 = Inr b"
      "get_input_node_shared_ptr g_output 4 1 = Inr c'" "as_constant g_output c' = Some d"
      "get_partial_shape g_output (4, 0) = Inr ps"
      "\<forall>inp \<in> set (get_target_inputs g_output (4, 0)).
         input_value g_output_result (fst inp) (snd inp) = Inr (b, 0)"
      "get_target_inputs g_output_result (4, 0) = []"
      "wf_graph g_output \<and> length (out_shapes (nodes g_output ! 4)) = 1 \<longrightarrow>
         (\<forall>n k s. input_value g_output_result n k = Inr s \<longrightarrow> fst s \<noteq> 4)"
      "layout (descs g_output (OutPort b 0)) = [] \<and> cast_vector_size_t d = [0, 2, 1] \<and>
       ps = [8, 16, 4]
         \<longrightarrow> layout (descs g_output_result (OutPort b 0)) = [0, 2, 1] \<and>
             shape (descs g_output_result (OutPort b 0)) = [8, 16, 4]"
    by blast
  have b: "b = 2" using f(1) e(1) by simp
  have c': "c' = 3" using f(2) e(3) by simp
  have d: "d = [0, 2, 1]" using f(3) e(4) c' by simp
  have ps': "ps = [8, 16, 4]" using f(4) e(5) by simp
  have r: "shape (descs g_output_result (OutPort 2 0)) = [8, 16, 4]"
    "layout (descs g_output_result (OutPort 2 0)) = [0, 2, 1]"
    using f(8) b d ps' e(6) c by simp_all
  have i5: "input_value g_output_result 5 0 = Inr (2, 0)"
    and i6: "input_value g_output_result 6 0 = Inr (2, 0)"
    using f(5) unfolding ti b by simp_all
  have det: "\<not> (\<exists>n k s. input_value g_output_result n k = Inr s \<and> fst s = 4)"
    using f(7) wf one by blast
  (* an eligible order and a layout recorded before *)
  have rtb: "as_transpose g_both 6 = Some 6"
    and supb: "is_supported_transpose g_both (6, 0) = Inr True"
    by (simp_all add: g_both_def eval_defs)
  have wfb: "wf_graph g_both" by (simp add: g_both_def wf_graph_def node_at_def)
  have oneb: "length (out_shapes (nodes g_both ! 6)) = 1" by (simp add: g_both_def)
  have tib: "get_target_inputs g_both (6, 0) = [(7, 0)]"
    by (simp add: g_both_def get_target_inputs_def)
  have eb: "get_input_node_shared_ptr g_both 6 0 = Inr 4" "as_brgemm g_both 4 = Some 4"
    "get_input_node_shared_ptr g_both 6 1 = Inr 5"
    "as_constant g_both 5 = Some [1, 0, 2]"
    "get_partial_shape g_both (6, 0) = Inr [4, 8, 16]"
    "layout (descs g_both (OutPort 4 0)) = [2, 0, 1]"
    "shape (descs g_both (OutPort 4 0)) = [8, 4, 16]"
    by (simp_all add: g_both_def eval_defs)
  have cb1: "cast_vector_size_t [1, 0, 2] = [1, 0, 2]" by (simp add: cast_vector_size_t_def)
  have lb: "fuse_layouts (layout (descs g_both (OutPort 4 0))) (cast_vector_size_t [1, 0, 2]) =
           Inr [0, 2, 1]"
    by (simp add: eb(6) cb1 fuse_layouts_def)
  have w0: "input_value g_both 4 0 = Inr (2, 0)"
    and w1: "input_value g_both 4 1 = Inr (3, 0)"
    and t1: "is_supported_transpose g_both (3, 0) = Inr False"
    and f0: "get_input_node_shared_ptr g_both 2 1 = Inr 1" "as_constant g_both 1 = Some [1, 0, 2]"
      "layout (descs g_both (InPort 4 0)) = [2, 0, 1]"
    by (simp_all add: g_both_def eval_defs)
  have cmp: "fuse_layouts [1, 0, 2] [2, 0, 1] = Inr [2, 1, 0]" by (simp add: fuse_layouts_def)
  have in_okb: "\<forall>j v c d. input_value g_both 4 j = Inr v \<and>
        is_supported_transpose g_both v = Inr True \<and>
        get_input_node_shared_ptr g_both (fst v) 1 = Inr c \<and>
        as_constant g_both c = Some d \<longrightarrow>
        (\<exists>l. fuse_layouts (cast_vector_size_t d) (layout (descs g_both (InPort 4 j))) = Inr l)"
  proof (intro allI impI, elim conjE)
    fix j v c' d
    assume a: "input_value g_both 4 j = Inr v" "is_supported_transpose g_both v = Inr True"
      "get_input_node_shared_ptr g_both (fst v) 1 = Inr c'"
      "as_constant g_both c' = Some d"
    from a(1) have "j < 2" by (simp add: g_both_def input_value_def node_at_def split: if_splits)
    then have "j = 0 \<or> j = 1" by auto
    then show "\<exists>l. fuse_layouts (cast_vector_size_t d) (layout (descs g_both (InPort 4 j))) = Inr l"
    proof
      assume j: "j = 0"
      with a(1) w0 have "v = (2, 0)" by simp
      with a(3) f0(1) have "c' = 1" by simp
      with a(4) f0(2) have "d = [1, 0, 2]" by simp
      then show ?thesis using j f0(3) cb1 cmp by simp
    next
      assume j: "j = 1"
      with a w1 t1 show ?thesis by simp
    qed
  qed
  note cofb = callback_output_fusion[OF rtb, of keep_shapes]
  have "\<exists>g'. callback keep_shapes g_both 6 = Inr (g', True)"
    apply (rule cofb[THEN conjunct1, rule_format])
    apply (rule conjI[OF wfb])
    apply (rule exI[of _ 4], rule exI[of _ 5], rule exI[of _ "[1, 0, 2]"],
           rule exI[of _ "[4, 8, 16]"], rule exI[of _ "[0, 2, 1]"])
    apply (intro conjI eb(1-5) lb in_okb inf)
    done
  then obtain g'' where cbb': "callback keep_shapes g_both 6 = Inr (g'', True)" ..
  have "callback keep_shapes g_both 6 = Inr (g_both_fused, True)"
    by (simp add: g_both_def g_both_fused_def eval_defs)
  with cbb' have cbb: "callback keep_shapes g_both 6 = Inr (g_both_fused, True)" by simp
  from cofb[THEN conjunct2, rule_format, OF cbb] obtain b2 c2 d2 ps2 where
    fb: "get_input_node_shared_ptr g_both 6 0 = Inr b2"
      "get_input_node_shared_ptr g_both 6 1 = Inr c2" "as_constant g_both c2 = Some d2"
      "get_partial_shape g_both (6, 0) = Inr ps2"
      "shape (descs g_both_fused (OutPort b2 0)) = pshape_to_vdims ps2"
      "layout (descs g_both_fused (OutPort b2 0)) =
            (if layout (descs g_both (OutPort b2 0)) = [] then cast_vector_size_t d2
             else if cast_vector_size_t d2 = [] then layout (descs g_both (OutPort b2 0))
             else map (\<lambda>j. layout (descs g_both (OutPort b2 0)) ! j) (cast_vector_size_t d2))"
      "\<forall>inp \<in> set (get_target_inputs g_both (6, 0)).
         input_value g_both_fused (fst inp) (snd inp) = Inr (b2, 0)"
      "get_target_inputs g_both_fused (6, 0) = []"
      "wf_graph g_both \<and> length (out_shapes (nodes g_both ! 6)) = 1 \<longrightarrow>
         (\<forall>n k s. input_value g_both_fused n k = Inr s \<longrightarrow> fst s \<noteq> 6)"
    by blast
  have b2: "b2 = 4" using fb(1) eb(1) by simp
  have c2: "c2 = 5" using fb(2) eb(3) by simp
  have d2: "d2 = [1, 0, 2]" using fb(3) eb(4) c2 by simp
  have ps2: "ps2 = [4, 8, 16]" using fb(4) eb(5) by simp
  have rb: "shape (descs g_both_fused (OutPort 4 0)) = [4, 8, 16]"
    "layout (descs g_both_fused (OutPort 4 0)) = [0, 2, 1]"
    using fb(5,6) b2 d2 ps2 eb(6) cb1 by (simp_all add: pshape_to_vdims_def)
  have i7: "input_value g_both_fused 7 0 = Inr (4, 0)"
    using fb(7) unfolding tib b2 by simp
  have detb: "\<not> (\<exists>n k s. input_value g_both_fused n k = Inr s \<and> fst s = 6)"
    using fb(9) wfb oneb by blast
  show ?thesis
    by (intro conjI rt wf e(1,2,4,7,6) ti cb r i5 i6 f(6) det
        rtb supb wfb eb(1,2,4,7,6) tib cbb rb i7 fb(8) detb)
qed

text \<open>
  Claim C7. On a well-formed graph \<open>is_supported_transpose\<close> returns a boolean for every
  value and never raises; it takes the graph and returns nothing else, so it has no
  effect. The result is false when the value is not produced by a Transpose, when the
  producer of input 1 is not a Constant, and when the constant fails
  \<open>is_supported_transpose_order\<close>; it is true exactly in the remaining case.
\<close>
theorem is_supported_transpose_value:
  assumes wf: "wf_graph g"
  shows
   "(as_transpose g (fst v) = None \<longrightarrow> is_supported_transpose g v = Inr False) \<and>
    (\<forall>c. get_input_node_shared_ptr g (fst v) 1 = Inr c \<and> as_constant g c = None
          \<longrightarrow> is_supported_transpose g v = Inr False) \<and>
    (\<forall>c d. get_input_node_shared_ptr g (fst v) 1 = Inr c \<and> as_constant g c = Some d \<and>
            \<not> is_supported_transpose_order (cast_vector_i32 d)
          \<longrightarrow> is_supported_transpose g v = Inr False) \<and>
    (\<exists>r. is_supported_transpose g v = Inr r) \<and>
    (is_supported_transpose g v = Inr True \<longleftrightarrow>
       (\<exists>c d. as_transpose g (fst v) = Some (fst v) \<and>
              get_input_node_shared_ptr g (fst v) 1 = Inr c \<and> as_constant g c = Some d \<and>
              is_supported_transpose_order (cast_vector_i32 d)))"
proof (intro conjI allI impI)
  assume "as_transpose g (fst v) = None"
  then show "is_supported_transpose g v = Inr False" by (simp add: is_supported_transpose_def)
next
  fix c assume a: "get_input_node_shared_ptr g (fst v) 1 = Inr c \<and> as_constant g c = None"
  show "is_supported_transpose g v = Inr False"
  proof (cases "as_transpose g (fst v)")
    case None
    then show ?thesis by (simp add: is_supported_transpose_def)
  next
    case (Some t)
    then have "t = fst v" by (simp add: as_transpose_Some)
    with Some a show ?thesis by (simp add: is_supported_transpose_def)
  qed
next
  fix c d
  assume a: "get_input_node_shared_ptr g (fst v) 1 = Inr c \<and> as_constant g c = Some d \<and>
            \<not> is_supported_transpose_order (cast_vector_i32 d)"
  show "is_supported_transpose g v = Inr False"
  proof (cases "as_transpose g (fst v)")
    case None
    then show ?thesis by (simp add: is_supported_transpose_def)
  next
    case (Some t)
    then have "t = fst v" by (simp add: as_transpose_Some)
    with Some a show ?thesis by (simp add: is_supported_transpose_def)
  qed
next
  show "\<exists>r. is_supported_transpose g v = Inr r" using wf by (rule is_supported_transpose_wf)
next
  show "is_supported_transpose g v = Inr True \<longleftrightarrow>
       (\<exists>c d. as_transpose g (fst v) = Some (fst v) \<and>
              get_input_node_shared_ptr g (fst v) 1 = Inr c \<and> as_constant g c = Some d \<and>
              is_supported_transpose_order (cast_vector_i32 d))"
  proof
    assume "is_supported_transpose g v = Inr True"
    then show "\<exists>c d. as_transpose g (fst v) = Some (fst v) \<and>
              get_input_node_shared_ptr g (fst v) 1 = Inr c \<and> as_constant g c = Some d \<and>
              is_supported_transpose_order (cast_vector_i32 d)"
      by (rule is_supported_transpose_True)
  next
    assume "\<exists>c d. as_transpose g (fst v) = Some (fst v) \<and>
              get_input_node_shared_ptr g (fst v) 1 = Inr c \<and> as_constant g c = Some d \<and>
              is_supported_transpose_order (cast_vector_i32 d)"
    then obtain c d where "as_transpose g (fst v) = Some (fst v)"
      "get_input_node_shared_ptr g (fst v) 1 = Inr c" "as_constant g c = Some d"
      "is_supported_transpose_order (cast_vector_i32 d)" by blast
    then show "is_supported_transpose g v = Inr True" by (simp add: is_supported_transpose_def)
  qed
qed

theorem is_supported_transpose_value_witness:
  "wf_graph g_values \<and>
   as_transpose g_values (fst (0 :: nat, 0 :: nat)) = None \<and>
   is_supported_transpose g_values (0, 0) = Inr False \<and>
   get_input_node_shared_ptr g_values (fst (2 :: nat, 0 :: nat)) 1 = Inr 1 \<and>
   as_constant g_values 1 = None \<and>
   is_supported_transpose g_values (2, 0) = Inr False \<and>
   get_input_node_shared_ptr g_values (fst (4 :: nat, 0 :: nat)) 1 = Inr 3 \<and>
   as_constant g_values 3 = Some [1, 0] \<and> \<not> is_supported_transpose_order (cast_vector_i32 [1, 0]) \<and>
   is_supported_transpose g_values (4, 0) = Inr False \<and>
   as_transpose g_values (fst (6 :: nat, 0 :: nat)) = Some 6 \<and>
   get_input_node_shared_ptr g_values (fst (6 :: nat, 0 :: nat)) 1 = Inr 5 \<and>
   as_constant g_values 5 = Some [0, 1] \<and> is_supported_transpose_order (cast_vector_i32 [0, 1]) \<and>
   is_supported_transpose g_values (6, 0) = Inr True"
proof -
  have wf: "wf_graph g_values" by (simp add: g_values_def wf_graph_def node_at_def)
  have e: "as_transpose g_values (fst (0 :: nat, 0 :: nat)) = None"
    "get_input_node_shared_ptr g_values (fst (2 :: nat, 0 :: nat)) 1 = Inr 1"
    "as_constant g_values 1 = None"
    "get_input_node_shared_ptr g_values (fst (4 :: nat, 0 :: nat)) 1 = Inr 3"
    "as_constant g_values 3 = Some [1, 0]" "\<not> is_supported_transpose_order (cast_vector_i32 [1, 0])"
    "as_transpose g_values (fst (6 :: nat, 0 :: nat)) = Some 6"
    "get_input_node_shared_ptr g_values (fst (6 :: nat, 0 :: nat)) 1 = Inr 5"
    "as_constant g_values 5 = Some [0, 1]" "is_supported_transpose_order (cast_vector_i32 [0, 1])"
    by (simp_all add: g_values_def eval_defs)
  have r0: "is_supported_transpose g_values (0, 0) = Inr False"
    using is_supported_transpose_value[OF wf, of "(0, 0)", THEN conjunct1] e(1) by simp
  have r2: "is_supported_transpose g_values (2, 0) = Inr False"
    using is_supported_transpose_value[OF wf, of "(2, 0)", THEN conjunct2, THEN conjunct1] e(2,3)
    by simp
  have r4: "is_supported_transpose g_values (4, 0) = Inr False"
    using is_supported_transpose_value[OF wf, of "(4, 0)", THEN conjunct2, THEN conjunct2, THEN conjunct1]
      e(4,5,6) by simp
  have r6: "is_supported_transpose g_values (6, 0) = Inr True"
    using is_supported_transpose_value[OF wf, of "(6, 0)", THEN conjunct2, THEN conjunct2,
        THEN conjunct2, THEN conjunct2] e(7,8,9,10) by simp
  show ?thesis using wf e r0 r2 r4 r6 by simp
qed

text \<open>
  Claim C8, amended. Let the order of a fused transpose be a valid permutation with one
  entry per dimension of the shape written to the descriptor, and let the layout recorded
  before be empty or a valid permutation of the same length. After the callback the
  layout of the affected port is a valid permutation whose length is the rank of the shape
  of that descriptor: for input \<open>i\<close> of the Brgemm when its source is a supported transpose
  (under a Brgemm root and under a Transpose root alike; the root itself is the transpose
  fused into the output, not into an input), and for output 0 of the Brgemm under a
  Transpose root.
\<close>
theorem fusion_keeps_layout_permutation:
  assumes cb: "callback infer g root = Inr (g', changed)"
  shows
   "(\<forall>brgemm i v c d.
       (as_brgemm g root = Some brgemm \<or>
        (as_transpose g root = Some root \<and> get_input_node_shared_ptr g root 0 = Inr brgemm)) \<and>
       input_value g brgemm i = Inr v \<and> is_supported_transpose g v = Inr True \<and>
       v \<noteq> (root, 0) \<and>
       get_input_node_shared_ptr g (fst v) 1 = Inr c \<and> as_constant g c = Some d \<and>
       valid_permutation (cast_vector_size_t d) \<and>
       length (cast_vector_size_t d) = length (shape (descs g' (InPort brgemm i))) \<and>
       (layout (descs g (InPort brgemm i)) = [] \<or>
        valid_permutation (layout (descs g (InPort brgemm i))) \<and>
        length (layout (descs g (InPort brgemm i))) = length (cast_vector_size_t d))
       \<longrightarrow> valid_permutation (layout (descs g' (InPort brgemm i))) \<and>
           length (layout (descs g' (InPort brgemm i))) =
             length (shape (descs g' (InPort brgemm i)))) \<and>
    (\<forall>b c d.
       as_transpose g root = Some root \<and> get_input_node_shared_ptr g root 0 = Inr b \<and>
       get_input_node_shared_ptr g root 1 = Inr c \<and> as_constant g c = Some d \<and>
       valid_permutation (cast_vector_size_t d) \<and>
       length (cast_vector_size_t d) = length (shape (descs g' (OutPort b 0))) \<and>
       (layout (descs g (OutPort b 0)) = [] \<or>
        valid_permutation (layout (descs g (OutPort b 0))) \<and>
        length (layout (descs g (OutPort b 0))) = length (cast_vector_size_t d))
       \<longrightarrow> valid_permutation (layout (descs g' (OutPort b 0))) \<and>
           length (layout (descs g' (OutPort b 0))) = length (shape (descs g' (OutPort b 0))))"
proof (rule conjI; intro allI impI; elim conjE)
  fix brgemm i v c d
  assume root: "as_brgemm g root = Some brgemm \<or>
        (as_transpose g root = Some root \<and> get_input_node_shared_ptr g root 0 = Inr brgemm)"
    and v: "input_value g brgemm i = Inr v" and sup: "is_supported_transpose g v = Inr True"
    and ne: "v \<noteq> (root, 0)"
    and c: "get_input_node_shared_ptr g (fst v) 1 = Inr c" and d: "as_constant g c = Some d"
    and vp: "valid_permutation (cast_vector_size_t d)"
    and len: "length (cast_vector_size_t d) = length (shape (descs g' (InPort brgemm i)))"
    and prior: "layout (descs g (InPort brgemm i)) = [] \<or>
        valid_permutation (layout (descs g (InPort brgemm i))) \<and>
        length (layout (descs g (InPort brgemm i))) = length (cast_vector_size_t d)"
  from callback_inputs_post[OF cb root v sup ne] obtain c' d' where
    f: "get_input_node_shared_ptr g (fst v) 1 = Inr c'" "as_constant g c' = Some d'"
      "layout (descs g' (InPort brgemm i)) =
         (if layout (descs g (InPort brgemm i)) = [] then cast_vector_size_t d'
          else map (\<lambda>j. cast_vector_size_t d' ! j) (layout (descs g (InPort brgemm i))))"
    by blast
  have dd: "d' = d" using f(1,2) c d by simp
  show "valid_permutation (layout (descs g' (InPort brgemm i))) \<and>
        length (layout (descs g' (InPort brgemm i))) = length (shape (descs g' (InPort brgemm i)))"
  proof (cases "layout (descs g (InPort brgemm i)) = []")
    case True
    then show ?thesis using f(3) dd vp len by simp
  next
    case False
    with prior have vq: "valid_permutation (layout (descs g (InPort brgemm i)))"
      and lq: "length (cast_vector_size_t d) = length (layout (descs g (InPort brgemm i)))"
      by simp_all
    from valid_permutation_compose[OF vp vq lq] False f(3) dd lq len show ?thesis by simp
  qed
next
  fix b c d
  assume rt: "as_transpose g root = Some root"
    and b: "get_input_node_shared_ptr g root 0 = Inr b"
    and c: "get_input_node_shared_ptr g root 1 = Inr c" and d: "as_constant g c = Some d"
    and vp: "valid_permutation (cast_vector_size_t d)"
    and len: "length (cast_vector_size_t d) = length (shape (descs g' (OutPort b 0)))"
    and prior: "layout (descs g (OutPort b 0)) = [] \<or>
        valid_permutation (layout (descs g (OutPort b 0))) \<and>
        length (layout (descs g (OutPort b 0))) = length (cast_vector_size_t d)"
  from callback_transpose_post[OF cb rt] obtain b' c' d' l where
    f: "get_input_node_shared_ptr g root 0 = Inr b'"
      "get_input_node_shared_ptr g root 1 = Inr c'" "as_constant g c' = Some d'"
      "fuse_layouts (layout (descs g (OutPort b' 0))) (cast_vector_size_t d') = Inr l"
      "layout (descs g' (OutPort b' 0)) = l"
    by blast
  have bb: "b' = b" using f(1) b by simp
  have dd: "d' = d" using f(2,3) c d by simp
  from fuse_layouts_keeps_permutation(2)[OF vp prior] f(4) bb dd
  have "valid_permutation l \<and> length l = length (cast_vector_size_t d)" by simp
  then show "valid_permutation (layout (descs g' (OutPort b 0))) \<and>
        length (layout (descs g' (OutPort b 0))) = length (shape (descs g' (OutPort b 0)))"
    using f(5) bb len by simp
qed

text \<open>
  Claim C8 as stated asks nothing of the order of the transpose. The callback reads the
  order from the Constant and checks its last entry only: in \<open>g_bad\<close>, where no layout is
  recorded, the transpose with the constant \<open>[0, 0, 2]\<close> is supported and the layout written
  is \<open>[0, 0, 2]\<close>, not a permutation; the transpose with the constant \<open>[0, 1]\<close> on a rank-3
  input is supported and the layout written has length 2 beside a shape of rank 3.
\<close>
theorem fusion_keeps_layout_permutation_counterexample:
  "wf_graph g_bad \<and> as_brgemm g_bad 6 = Some 6 \<and>
   input_value g_bad 6 0 = Inr (2, 0) \<and> is_supported_transpose g_bad (2, 0) = Inr True \<and>
   get_input_node_shared_ptr g_bad 2 1 = Inr 1 \<and> as_constant g_bad 1 = Some [0, 0, 2] \<and>
   layout (descs g_bad (InPort 6 0)) = [] \<and>
   input_value g_bad 6 1 = Inr (5, 0) \<and> is_supported_transpose g_bad (5, 0) = Inr True \<and>
   get_input_node_shared_ptr g_bad 5 1 = Inr 4 \<and> as_constant g_bad 4 = Some [0, 1] \<and>
   layout (descs g_bad (InPort 6 1)) = [] \<and>
   callback keep_shapes g_bad 6 = Inr (g_bad_fused, True) \<and>
   shape (descs g_bad_fused (InPort 6 0)) = [4, 8, 16] \<and>
   layout (descs g_bad_fused (InPort 6 0)) = [0, 0, 2] \<and>
   \<not> valid_permutation (layout (descs g_bad_fused (InPort 6 0))) \<and>
   shape (descs g_bad_fused (InPort 6 1)) = [2, 3, 5] \<and>
   layout (descs g_bad_fused (InPort 6 1)) = [0, 1] \<and>
   length (layout (descs g_bad_fused (InPort 6 1))) \<noteq>
     length (shape (descs g_bad_fused (InPort 6 1)))"
proof -
  have wf: "wf_graph g_bad" by (simp add: g_bad_def wf_graph_def node_at_def)
  have pre: "as_brgemm g_bad 6 = Some 6 \<and>
   input_value g_bad 6 0 = Inr (2, 0) \<and> is_supported_transpose g_bad (2, 0) = Inr True \<and>
   get_input_node_shared_ptr g_bad 2 1 = Inr 1 \<and> as_constant g_bad 1 = Some [0, 0, 2] \<and>
   layout (descs g_bad (InPort 6 0)) = [] \<and>
   input_value g_bad 6 1 = Inr (5, 0) \<and> is_supported_transpose g_bad (5, 0) = Inr True \<and>
   get_input_node_shared_ptr g_bad 5 1 = Inr 4 \<and> as_constant g_bad 4 = Some [0, 1] \<and>
   layout (descs g_bad (InPort 6 1)) = []"
    by (simp add: g_bad_def eval_defs)
  have cb: "callback keep_shapes g_bad 6 = Inr (g_bad_fused, True)"
    by (simp add: g_bad_def g_bad_fused_def eval_defs)
  have nv: "\<not> valid_permutation [0, 0, 2]"
  proof
    assume "valid_permutation [0, 0, 2]"
    then have "set [0, 0, 2 :: nat] = {0..<length [0, 0, 2 :: nat]}"
      by (rule valid_permutation_set)
    moreover have "(1 :: nat) \<in> {0..<length [0, 0, 2 :: nat]}" by simp
    ultimately have "(1 :: nat) \<in> set [0, 0, 2 :: nat]" by blast
    then show False by simp
  qed
  have post: "shape (descs g_bad_fused (InPort 6 0)) = [4, 8, 16] \<and>
   layout (descs g_bad_fused (InPort 6 0)) = [0, 0, 2] \<and>
   shape (descs g_bad_fused (InPort 6 1)) = [2, 3, 5] \<and>
   layout (descs g_bad_fused (InPort 6 1)) = [0, 1]"
    by (simp add: g_bad_fused_def)
  show ?thesis using wf pre cb nv post by simp
qed

theorem fusion_keeps_layout_permutation_witness:
  "callback keep_shapes g_inputs_prior 6 = Inr (g_inputs_prior_fused, True) \<and>
   as_brgemm g_inputs_prior 6 = Some 6 \<and>
   input_value g_inputs_prior 6 0 = Inr (2, 0) \<and>
   is_supported_transpose g_inputs_prior (2, 0) = Inr True \<and>
   as_constant g_inputs_prior 1 = Some [1, 0, 2] \<and>
   valid_permutation (cast_vector_size_t [1, 0, 2]) \<and>
   layout (descs g_inputs_prior (InPort 6 0)) = [2, 0, 1] \<and>
   valid_permutation (layout (descs g_inputs_prior (InPort 6 0))) \<and>
   layout (descs g_inputs_prior_fused (InPort 6 0)) = [2, 1, 0] \<and>
   shape (descs g_inputs_prior_fused (InPort 6 0)) = [4, 8, 16] \<and>
   valid_permutation (layout (descs g_inputs_prior_fused (InPort 6 0))) \<and>
   length (layout (descs g_inputs_prior_fused (InPort 6 0))) =
     length (shape (descs g_inputs_prior_fused (InPort 6 0))) \<and>
   callback keep_shapes g_both 6 = Inr (g_both_fused, True) \<and>
   as_transpose g_both 6 = Some 6 \<and> get_input_node_shared_ptr g_both 6 0 = Inr 4 \<and>
   input_value g_both 4 0 = Inr (2, 0) \<and> is_supported_transpose g_both (2, 0) = Inr True \<and>
   layout (descs g_both (InPort 4 0)) = [2, 0, 1] \<and>
   layout (descs g_both_fused (InPort 4 0)) = [2, 1, 0] \<and>
   shape (descs g_both_fused (InPort 4 0)) = [4, 8, 32] \<and>
   valid_permutation (layout (descs g_both_fused (InPort 4 0))) \<and>
   length (layout (descs g_both_fused (InPort 4 0))) =
     length (shape (descs g_both_fused (InPort 4 0))) \<and>
   as_constant g_both 5 = Some [1, 0, 2] \<and>
   layout (descs g_both (OutPort 4 0)) = [2, 0, 1] \<and>
   layout (descs g_both_fused (OutPort 4 0)) = [0, 2, 1] \<and>
   shape (descs g_both_fused (OutPort 4 0)) = [4, 8, 16] \<and>
   valid_permutation (layout (descs g_both_fused (OutPort 4 0))) \<and>
   length (layout (descs g_both_fused (OutPort 4 0))) =
     length (shape (descs g_both_fused (OutPort 4 0)))"
proof -
  have vp: "valid_permutation (cast_vector_size_t [1, 0, 2])"
    by (simp add: cast_vector_size_t_def valid_permutation_def)
  have vq: "valid_permutation [2, 0, 1]" by (simp add: valid_permutation_def)
  have lc: "length (cast_vector_size_t [1, 0, 2]) = 3" by (simp add: cast_vector_size_t_def)
  (* an input fused under a Brgemm root *)
  have cb: "callback keep_shapes g_inputs_prior 6 = Inr (g_inputs_prior_fused, True)"
    by (simp add: g_inputs_prior_def g_inputs_prior_fused_def eval_defs)
  have i: "as_brgemm g_inputs_prior 6 = Some 6" "input_value g_inputs_prior 6 0 = Inr (2, 0)"
    "is_supported_transpose g_inputs_prior (2, 0) = Inr True"
    "get_input_node_shared_ptr g_inputs_prior (fst (2 :: nat, 0 :: nat)) 1 = Inr 1"
    "as_constant g_inputs_prior 1 = Some [1, 0, 2]"
    "layout (descs g_inputs_prior (InPort 6 0)) = [2, 0, 1]"
    by (simp_all add: g_inputs_prior_def eval_defs)
  have p: "layout (descs g_inputs_prior_fused (InPort 6 0)) = [2, 1, 0]"
    "shape (descs g_inputs_prior_fused (InPort 6 0)) = [4, 8, 16]"
    by (simp_all add: g_inputs_prior_fused_def)
  have ne: "(2 :: nat, 0 :: nat) \<noteq> (6, 0)" by simp
  have pr: "layout (descs g_inputs_prior (InPort 6 0)) = [] \<or>
        valid_permutation (layout (descs g_inputs_prior (InPort 6 0))) \<and>
        length (layout (descs g_inputs_prior (InPort 6 0))) = length (cast_vector_size_t [1, 0, 2])"
    by (rule disjI2, rule conjI, simp only: i(6) vq, simp add: i(6) lc)
  have ls: "length (cast_vector_size_t [1, 0, 2]) =
      length (shape (descs g_inputs_prior_fused (InPort 6 0)))"
    by (simp add: p(2) lc)
  have r1: "valid_permutation (layout (descs g_inputs_prior_fused (InPort 6 0))) \<and>
     length (layout (descs g_inputs_prior_fused (InPort 6 0))) =
       length (shape (descs g_inputs_prior_fused (InPort 6 0)))"
    by (rule fusion_keeps_layout_permutation[OF cb, THEN conjunct1, rule_format,
          of 6 0 "(2, 0)" 1 "[1, 0, 2]"])
       (intro conjI disjI1 i(1-5) ne vp ls pr)
  (* a Transpose root: the output and an input of the Brgemm *)
  have cbb: "callback keep_shapes g_both 6 = Inr (g_both_fused, True)"
    by (simp add: g_both_def g_both_fused_def eval_defs)
  have o: "as_transpose g_both 6 = Some 6" "get_input_node_shared_ptr g_both 6 0 = Inr 4"
    "get_input_node_shared_ptr g_both 6 1 = Inr 5" "as_constant g_both 5 = Some [1, 0, 2]"
    "layout (descs g_both (OutPort 4 0)) = [2, 0, 1]"
    "input_value g_both 4 0 = Inr (2, 0)" "is_supported_transpose g_both (2, 0) = Inr True"
    "get_input_node_shared_ptr g_both (fst (2 :: nat, 0 :: nat)) 1 = Inr 1"
    "as_constant g_both 1 = Some [1, 0, 2]"
    "layout (descs g_both (InPort 4 0)) = [2, 0, 1]"
    by (simp_all add: g_both_def eval_defs)
  have q: "layout (descs g_both_fused (InPort 4 0)) = [2, 1, 0]"
    "shape (descs g_both_fused (InPort 4 0)) = [4, 8, 32]"
    "layout (descs g_both_fused (OutPort 4 0)) = [0, 2, 1]"
    "shape (descs g_both_fused (OutPort 4 0)) = [4, 8, 16]"
    by (simp_all add: g_both_fused_def)
  have rootb: "as_brgemm g_both 6 = Some 4 \<or>
        (as_transpose g_both 6 = Some 6 \<and> get_input_node_shared_ptr g_both 6 0 = Inr 4)"
    by (rule disjI2) (simp add: o(1,2))
  have pri: "layout (descs g_both (InPort 4 0)) = [] \<or>
        valid_permutation (layout (descs g_both (InPort 4 0))) \<and>
        length (layout (descs g_both (InPort 4 0))) = length (cast_vector_size_t [1, 0, 2])"
    by (rule disjI2, rule conjI, simp only: o(10) vq, simp add: o(10) lc)
  have pro: "layout (descs g_both (OutPort 4 0)) = [] \<or>
        valid_permutation (layout (descs g_both (OutPort 4 0))) \<and>
        length (layout (descs g_both (OutPort 4 0))) = length (cast_vector_size_t [1, 0, 2])"
    by (rule disjI2, rule conjI, simp only: o(5) vq, simp add: o(5) lc)
  have lsi: "length (cast_vector_size_t [1, 0, 2]) = length (shape (descs g_both_fused (InPort 4 0)))"
    by (simp add: q(2) lc)
  have lso: "length (cast_vector_size_t [1, 0, 2]) = length (shape (descs g_both_fused (OutPort 4 0)))"
    by (simp add: q(4) lc)
  have r2: "valid_permutation (layout (descs g_both_fused (InPort 4 0))) \<and>
     length (layout (descs g_both_fused (InPort 4 0))) =
       length (shape (descs g_both_fused (InPort 4 0)))"
    by (rule fusion_keeps_layout_permutation[OF cbb, THEN conjunct1, rule_format,
          of 4 0 "(2, 0)" 1 "[1, 0, 2]"])
       (intro conjI rootb o(6-9) ne vp lsi pri)
  have r3: "valid_permutation (layout (descs g_both_fused (OutPort 4 0))) \<and>
     length (layout (descs g_both_fused (OutPort 4 0))) =
       length (shape (descs g_both_fused (OutPort 4 0)))"
    by (rule fusion_keeps_layout_permutation[OF cbb, THEN conjunct2, rule_format,
          of 4 5 "[1, 0, 2]"])
       (intro conjI o(1-4) vp lso pro)
  have vq1: "valid_permutation (layout (descs g_inputs_prior (InPort 6 0)))"
    by (simp only: i(6) vq)
  show ?thesis
    by (intro conjI cb i(1-3,5,6) vp vq1 p r1[THEN conjunct1] r1[THEN conjunct2]
        cbb o(1,2,6,7,10) q(1,2) r2[THEN conjunct1] r2[THEN conjunct2]
        o(4,5) q(3,4) r3[THEN conjunct1] r3[THEN conjunct2])
qed

text \<open>
  Claim C9. When a run of the pass has ended with the graph \<open>g'\<close>, no node of \<open>g'\<close> from
  which a Result is reached matches the pattern, and every further run, with any positive
  bound, ends at once and returns \<open>g'\<close> unchanged.
\<close>
theorem run_pass_idempotent:
  assumes "run_pass infer fuel g = Some (Inr g')"
  shows "find_match g' = None \<and>
         (\<forall>n \<in> set (live_nodes g'). \<not> m_brgemm_or_transpose g' (n, 0)) \<and>
         run_pass infer (Suc fuel') g' = Some (Inr g')"
  using assms
proof (induction fuel arbitrary: g)
  case 0
  then show ?case by simp
next
  case (Suc fuel)
  show ?case
  proof (cases "find_match g")
    case None
    with Suc.prems have g': "g' = g" by simp
    have "\<forall>n \<in> set (live_nodes g). \<not> m_brgemm_or_transpose g (n, 0)"
      using None by (simp add: find_match_def find_None_iff)
    moreover have "run_pass infer (Suc fuel') g = Some (Inr g)" using None by simp
    ultimately show ?thesis using None g' by simp
  next
    case (Some root)
    show ?thesis
    proof (cases "callback infer g root")
      case (Inl e)
      with Some Suc.prems show ?thesis by simp
    next
      case (Inr r)
      then obtain g1 changed where "callback infer g root = Inr (g1, changed)" by (cases r) simp
      with Some Suc.prems have "run_pass infer fuel g1 = Some (Inr g')" by simp
      then show ?thesis by (rule Suc.IH)
    qed
  qed
qed

theorem run_pass_idempotent_witness:
  "run_pass keep_shapes 2 g_inputs = Some (Inr g_inputs_fused) \<and>
   find_match g_inputs_fused = None \<and>
   run_pass keep_shapes 1 g_inputs_fused = Some (Inr g_inputs_fused) \<and>
   run_pass keep_shapes 2 g_output_ok = Some (Inr g_output_fused) \<and>
   find_match g_output_fused = None \<and>
   run_pass keep_shapes 1 g_output_fused = Some (Inr g_output_fused)"
proof -
  have r1: "run_pass keep_shapes (Suc (Suc 0)) g_inputs = Some (Inr g_inputs_fused)"
    by (simp add: g_inputs_find_match g_inputs_callback g_inputs_fused_find_match)
  have r2: "run_pass keep_shapes (Suc (Suc 0)) g_output_ok = Some (Inr g_output_fused)"
    by (simp add: g_output_ok_find_match g_output_ok_callback g_output_fused_find_match)
  from run_pass_idempotent[OF r1, of 0] run_pass_idempotent[OF r2, of 0] r1 r2
  show ?thesis by (simp add: numeral_2_eq_2)
qed

end
